theory Spec2Isabelle
  imports Main "HOL-Library.Char_ord" "HOL-Library.List_Lexorder"
begin

section \<open>Python strings and lists\<close>

text \<open>
  A \<open>string\<close> is the decoded text of a file or of one of its lines; a \<open>char\<close> stands for
  a code point below 256. Indices, line numbers and counters are Python's unbounded
  integers, hence \<open>int\<close>.
\<close>

definition hash_chr :: char where "hash_chr = CHR ''#''"
definition semicolon :: char where "semicolon = CHR '';''"
definition colon :: char where "colon = CHR '':''"
definition comma :: char where "comma = CHR '',''"
definition space_chr :: char where "space_chr = CHR '' ''"
definition underscore :: char where "underscore = CHR ''_''"
definition lparen :: char where "lparen = CHR ''(''"
definition rparen :: char where "rparen = CHR '')''"
definition dquote :: char where "dquote = CHR 0x22"
definition squote :: char where "squote = CHR 0x27"
definition LF :: char where "LF = CHR 0x0A"
definition CR :: char where "CR = CHR 0x0D"

text \<open>\<open>str.find(c, start)\<close> for a one-character needle: the first index at or after
  \<open>start\<close> holding \<open>c\<close>, or \<open>-1\<close>. A negative \<open>start\<close> counts from the end.\<close>

fun find_char :: "char \<Rightarrow> string \<Rightarrow> int \<Rightarrow> int" where
  "find_char c [] i = - 1"
| "find_char c (x # xs) i = (if x = c then i else find_char c xs (i + 1))"

definition py_find :: "string \<Rightarrow> char \<Rightarrow> int \<Rightarrow> int" where
  "py_find s c start =
     (let n = int (length s);
          a = (if start < 0 then max 0 (start + n) else start)
      in if a > n then - 1 else find_char c (drop (nat a) s) a)"

text \<open>Slicing \<open>s[a:b]\<close>: negative bounds count from the end, and both are clamped to
  the string.\<close>

definition slice_bound :: "'a list \<Rightarrow> int \<Rightarrow> int" where
  "slice_bound s i =
     (let n = int (length s) in if i < 0 then max 0 (i + n) else min i n)"

definition py_slice :: "'a list \<Rightarrow> int \<Rightarrow> int \<Rightarrow> 'a list" where
  "py_slice s a b =
     (let a' = slice_bound s a; b' = slice_bound s b
      in take (nat (b' - a')) (drop (nat a') s))"

definition py_slice_to :: "'a list \<Rightarrow> int \<Rightarrow> 'a list" where
  "py_slice_to s b = py_slice s 0 b"

definition py_slice_from :: "'a list \<Rightarrow> int \<Rightarrow> 'a list" where
  "py_slice_from s a = py_slice s a (int (length s))"

text \<open>\<open>str.isspace\<close>, which is also the class \<open>\s\<close> of a \<open>str\<close> pattern, and the class
  \<open>\w\<close>, on code points below 256.\<close>

definition is_space :: "char \<Rightarrow> bool" where
  "is_space c =
     (let k = (of_char c :: nat)
      in (9 \<le> k \<and> k \<le> 13) \<or> (28 \<le> k \<and> k \<le> 32) \<or> k = 133 \<or> k = 160)"

definition is_lower :: "char \<Rightarrow> bool" where
  "is_lower c = (let k = (of_char c :: nat) in 97 \<le> k \<and> k \<le> 122)"

definition is_upper :: "char \<Rightarrow> bool" where
  "is_upper c = (let k = (of_char c :: nat) in 65 \<le> k \<and> k \<le> 90)"

definition is_digit :: "char \<Rightarrow> bool" where
  "is_digit c = (let k = (of_char c :: nat) in 48 \<le> k \<and> k \<le> 57)"

definition is_word :: "char \<Rightarrow> bool" where
  "is_word c =
     (let k = (of_char c :: nat)
      in is_lower c \<or> is_upper c \<or> is_digit c \<or> c = underscore
         \<or> k = 170 \<or> k = 178 \<or> k = 179 \<or> k = 181 \<or> k = 185 \<or> k = 186
         \<or> (188 \<le> k \<and> k \<le> 190) \<or> (192 \<le> k \<and> k \<le> 214)
         \<or> (216 \<le> k \<and> k \<le> 246) \<or> (248 \<le> k \<and> k \<le> 255))"

definition lstrip :: "string \<Rightarrow> string" where
  "lstrip s = dropWhile is_space s"

definition startswith :: "'a list \<Rightarrow> 'a list \<Rightarrow> bool" where
  "startswith s p = (take (length p) s = p)"

definition endswith :: "'a list \<Rightarrow> 'a list \<Rightarrow> bool" where
  "endswith s p = (length p \<le> length s \<and> drop (length s - length p) s = p)"

text \<open>\<open>sub in s\<close> for strings.\<close>

fun contains :: "'a list \<Rightarrow> 'a list \<Rightarrow> bool" where
  "contains [] sub = (sub = [])"
| "contains (x # xs) sub = (startswith (x # xs) sub \<or> contains xs sub)"

text \<open>\<open>str.casefold\<close> changes no code point below 256 into one of the letters of
  \<open>todo\<close> except their capitals, so lowering the capitals is all that the search for
  that word can see.\<close>

definition lower_chr :: "char \<Rightarrow> char" where
  "lower_chr c = (if is_upper c then char_of (of_char c + (32 :: nat)) else c)"

definition casefold :: "string \<Rightarrow> string" where
  "casefold s = map lower_chr s"

text \<open>The lines a text file yields when iterated: each ends after its \<open>\n\<close>; the last
  may have none.\<close>

fun file_lines_from :: "string \<Rightarrow> string \<Rightarrow> string list" where
  "file_lines_from cur [] = (if cur = [] then [] else [cur])"
| "file_lines_from cur (c # cs) =
     (if c = LF then (cur @ [c]) # file_lines_from [] cs
      else file_lines_from (cur @ [c]) cs)"

definition file_lines :: "string \<Rightarrow> string list" where
  "file_lines text = file_lines_from [] text"

text \<open>\<open>str.splitlines(keepends=True)\<close>: besides \<open>\n\<close>, \<open>\r\<close> and \<open>\r\n\<close> it breaks at
  vertical tab, form feed, the separators \<open>\x1c\<close> to \<open>\x1e\<close> and \<open>\x85\<close>.\<close>

definition is_linebreak :: "char \<Rightarrow> bool" where
  "is_linebreak c =
     (let k = (of_char c :: nat) in (10 \<le> k \<and> k \<le> 13) \<or> (28 \<le> k \<and> k \<le> 30) \<or> k = 133)"

fun splitlines_from :: "string \<Rightarrow> string \<Rightarrow> string list" where
  "splitlines_from cur [] = (if cur = [] then [] else [cur])"
| "splitlines_from cur [c] = [cur @ [c]]"
| "splitlines_from cur (c # d # cs) =
     (if c = CR \<and> d = LF then (cur @ [c, d]) # splitlines_from [] cs
      else if is_linebreak c then (cur @ [c]) # splitlines_from [] (d # cs)
      else splitlines_from (cur @ [c]) (d # cs))"

definition splitlines :: "string \<Rightarrow> string list" where
  "splitlines text = splitlines_from [] text"

section \<open>Diagnostics\<close>

text \<open>
  A printed line \<open><path>: Line <n>: <code> <message>\<close> is kept as its parts: the path,
  the number \<open>n\<close>, the rule, and the name the message quotes (empty for the rules that
  quote none). \<open>S011T\<close> is the wording of S011 used for an element of a tuple target.
\<close>

datatype rule = S001 | S002 | S003 | S004 | S005 | S006 | S007 | S008 | S009
  | S010 | S011 | S011T | S012

datatype diag = Diag (d_path: string) (d_line: int) (d_rule: rule) (d_name: string)

section \<open>The stray-semicolon heuristic\<close>

text \<open>The inner loop of \<open>find_extra_semicolon\<close>, \<open>k\<close> rounds left: \<open>Inl\<close> is the index
  it returns, \<open>Inr\<close> the comment index it leaves behind when it runs out.\<close>

fun semicolon_inner :: "string \<Rightarrow> nat \<Rightarrow> nat \<Rightarrow> int \<Rightarrow> int \<Rightarrow> int + int" where
  "semicolon_inner s hash_amount 0 semicolon_index hash_idx = Inr hash_idx"
| "semicolon_inner s hash_amount (Suc k) semicolon_index hash_idx =
     (if semicolon_index > hash_idx
         \<or> dquote \<in> set (py_slice s (semicolon_index + 1) hash_idx)
         \<or> squote \<in> set (py_slice s (semicolon_index + 1) hash_idx)
      then semicolon_inner s hash_amount k semicolon_index
             (if hash_amount > 1 then py_find s hash_chr (hash_idx + 1) else hash_idx)
      else Inl semicolon_index)"

fun semicolon_outer :: "string \<Rightarrow> nat \<Rightarrow> nat \<Rightarrow> int \<Rightarrow> int \<Rightarrow> int option" where
  "semicolon_outer s hash_amount 0 semicolon_index hash_idx = None"
| "semicolon_outer s hash_amount (Suc k) semicolon_index hash_idx =
     (let semicolon_index' = py_find s semicolon (semicolon_index + 1)
      in case semicolon_inner s hash_amount hash_amount semicolon_index' hash_idx of
           Inl r \<Rightarrow> Some r
         | Inr hash_idx' \<Rightarrow> semicolon_outer s hash_amount k semicolon_index' hash_idx')"

definition find_extra_semicolon :: "string \<Rightarrow> int option" where
  "find_extra_semicolon s =
     (let hash_idx = (if hash_chr \<in> set s then py_find s hash_chr 0 else int (length s));
          semicolon_amount = count_list s semicolon;
          hash_amount = (if count_list s hash_chr = 0 then 1 else count_list s semicolon)
      in semicolon_outer s hash_amount semicolon_amount (- 1) hash_idx)"

section \<open>The name styles\<close>

text \<open>
  \<open>re.match\<close> anchors at the start only, and every item of the snake pattern
  \<open>_{,2}?[a-z]+[0-9]?_?[a-z]?[0-9]?\<close> after \<open>[a-z]+\<close> may match nothing: a name matches
  exactly when at most two underscores are followed by a lowercase letter.
\<close>

fun snake_from :: "nat \<Rightarrow> string \<Rightarrow> bool" where
  "snake_from k [] = False"
| "snake_from k (c # cs) =
     (is_lower c \<or> (c = underscore \<and> 0 < k \<and> snake_from (k - 1) cs))"

definition is_snake_case :: "string \<Rightarrow> bool" where
  "is_snake_case name = snake_from 2 name"

text \<open>
  The camel pattern \<open>[A-Z][a-z]+[A-Z]?[a-z]+\<close>: a capital, then either two lowercase
  letters, or one run of lowercase letters, a capital and a lowercase letter.
\<close>

definition is_camel_case :: "string \<Rightarrow> bool" where
  "is_camel_case name =
     (case name of
        [] \<Rightarrow> False
      | c # cs \<Rightarrow>
          is_upper c \<and>
          (let run = takeWhile is_lower cs; rest = dropWhile is_lower cs
           in 2 \<le> length run \<or>
              (1 \<le> length run \<and> 2 \<le> length rest
               \<and> is_upper (rest ! 0) \<and> is_lower (rest ! 1))))"

section \<open>The analyzer\<close>

text \<open>The named groups of a match of the definition-header pattern.\<close>

record groups =
  construction_name :: string
  space :: string
  entity_name :: string
  arguments :: string

text \<open>The fields of \<open>CodeAnalyzer\<close>, and \<open>stdout\<close> for what it has printed so far.\<close>

record analyzer =
  path :: string
  directory_path :: string
  string :: string
  line_number :: int
  match_object :: "groups option"
  last_3_lines_queue :: "string list"
  blank_lines_counter :: int
  hash_index :: int
  warning_queue :: "(int \<times> diag) list"
  file_list_of_lines :: "string list"
  file_text :: string
  stdout :: "diag list"

definition init :: analyzer where
  "init = \<lparr> path = [], directory_path = [], string = [], line_number = 1,
            match_object = None, last_3_lines_queue = [], blank_lines_counter = 0,
            hash_index = 0, warning_queue = [], file_list_of_lines = [],
            file_text = [], stdout = [] \<rparr>"

definition print :: "rule \<Rightarrow> string \<Rightarrow> analyzer \<Rightarrow> analyzer" where
  "print r name st = st\<lparr> stdout := stdout st @ [Diag (path st) (line_number st) r name] \<rparr>"

section \<open>The line pass\<close>

definition refresh_hash_index :: "analyzer \<Rightarrow> int" where
  "refresh_hash_index st =
     (if hash_chr \<in> set (string st) then py_find (string st) hash_chr 0
      else int (length (string st)))"

definition check_line_length :: "analyzer \<Rightarrow> analyzer" where
  "check_line_length st = (if length (string st) > 79 then print S001 [] st else st)"

definition check_indentation :: "analyzer \<Rightarrow> analyzer" where
  "check_indentation st =
     (let whitespace_counter = length (takeWhile (\<lambda>c. c = space_chr) (string st))
      in if whitespace_counter mod 4 \<noteq> 0 then print S002 [] st else st)"

text \<open>\<open>find_extra_semicolon\<close> gives an index or \<open>None\<close>; as a condition, \<open>None\<close> and
  the index 0 both count as false.\<close>

definition check_semicolon :: "analyzer \<Rightarrow> analyzer" where
  "check_semicolon st =
     (if semicolon \<in> set (string st)
         \<and> (case find_extra_semicolon (string st) of None \<Rightarrow> False | Some i \<Rightarrow> i \<noteq> 0)
      then print S003 [] st else st)"

definition check_comment_spaces :: "analyzer \<Rightarrow> analyzer" where
  "check_comment_spaces st =
     (if hash_chr \<in> set (string st) then
        (if startswith (lstrip (string st)) [hash_chr] then st
         else if endswith (py_slice_to (string st) (hash_index st)) [space_chr, space_chr] then st
         else print S004 [] st)
      else st)"

definition check_is_todo :: "analyzer \<Rightarrow> analyzer" where
  "check_is_todo st =
     (if hash_chr \<in> set (string st) then
        (let comment = casefold (py_slice_from (string st) (hash_index st + 1))
         in if contains comment ''todo'' then print S005 [] st else st)
      else st)"

definition is_blank :: "string \<Rightarrow> bool" where
  "is_blank s = (startswith s [LF] \<or> startswith s [CR])"

definition check_blank_lines :: "analyzer \<Rightarrow> analyzer" where
  "check_blank_lines st =
     (let st1 = st\<lparr> last_3_lines_queue := last_3_lines_queue st @ [string st] \<rparr>;
          st2 = (if length (last_3_lines_queue st1) > 4
                 then st1\<lparr> last_3_lines_queue := tl (last_3_lines_queue st1) \<rparr> else st1)
      in if is_blank (string st2)
         then st2\<lparr> blank_lines_counter := blank_lines_counter st2 + 1 \<rparr>
         else (if blank_lines_counter st2 = 3 then print S006 [] st2 else st2)
                \<lparr> blank_lines_counter := 0 \<rparr>)"

text \<open>The three header checks run only under the caller's test that the match is not
  \<open>None\<close>; they take the match \<open>g\<close> found there.\<close>

definition check_definition_spaces :: "groups \<Rightarrow> analyzer \<Rightarrow> analyzer" where
  "check_definition_spaces g st =
     (if length (space g) > 1 then print S007 (construction_name g) st else st)"

fun check_class_names :: "string list \<Rightarrow> analyzer \<Rightarrow> analyzer" where
  "check_class_names [] st = st"
| "check_class_names (class_name # rest) st =
     (if length class_name = 0 then st
      else check_class_names rest
             (if \<not> is_camel_case class_name then print S008 class_name st else st))"

definition check_class_name :: "groups \<Rightarrow> analyzer \<Rightarrow> analyzer" where
  "check_class_name g st =
     (if construction_name g \<noteq> ''class'' then st
      else check_class_names [entity_name g, arguments g] st)"

definition check_function_name :: "groups \<Rightarrow> analyzer \<Rightarrow> analyzer" where
  "check_function_name g st =
     (if construction_name g \<noteq> ''def'' then st
      else if \<not> is_snake_case (entity_name g) then print S009 (entity_name g) st else st)"

text \<open>
  The header pattern
  \<open> *(def|class)(\s+?)([\w]+)\(?([\w\s,:]*)\)?:\<close>, matched at the start of the line.
  The spaces, the run of \<open>\s\<close> and the run of \<open>\w\<close> are each followed by an item that
  cannot match their own characters, so each is the longest run. After an optional
  \<open>(\<close>, the arguments are the longest run of \<open>[\w\s,:]\<close> when \<open>):\<close> follows it, and
  otherwise what precedes the last colon of that run.
\<close>

definition in_arguments_class :: "char \<Rightarrow> bool" where
  "in_arguments_class c = (is_word c \<or> is_space c \<or> c = comma \<or> c = colon)"

definition arguments_group :: "string \<Rightarrow> string option" where
  "arguments_group t =
     (let a = takeWhile in_arguments_class t; u = dropWhile in_arguments_class t
      in if startswith u [rparen, colon] then Some a
         else if colon \<in> set a then Some (rev (tl (dropWhile (\<lambda>c. c \<noteq> colon) (rev a))))
         else None)"

definition header_groups :: "string \<Rightarrow> string \<Rightarrow> groups option" where
  "header_groups keyword r =
     (let sp = takeWhile is_space r; r1 = dropWhile is_space r;
          name = takeWhile is_word r1; r2 = dropWhile is_word r1
      in if sp = [] \<or> name = [] then None
         else case arguments_group (if startswith r2 [lparen] then tl r2 else r2) of
                None \<Rightarrow> None
              | Some a \<Rightarrow> Some \<lparr> construction_name = keyword, space = sp,
                                 entity_name = name, arguments = a \<rparr>)"

definition get_groups :: "analyzer \<Rightarrow> groups option" where
  "get_groups st =
     (let r = dropWhile (\<lambda>c. c = space_chr) (string st)
      in if startswith r ''def'' then header_groups ''def'' (drop 3 r)
         else if startswith r ''class'' then header_groups ''class'' (drop 5 r)
         else None)"

text \<open>Print and drop the pending findings at the head of the queue that are keyed
  with the current line number.\<close>

fun drain :: "int \<Rightarrow> (int \<times> diag) list \<Rightarrow> diag list \<times> (int \<times> diag) list" where
  "drain n [] = ([], [])"
| "drain n ((k, d) # q) =
     (if k = n then (let (ds, q') = drain n q in (d # ds, q')) else ([], (k, d) # q))"

definition check_warning_queue :: "analyzer \<Rightarrow> analyzer" where
  "check_warning_queue st =
     (let (ds, q') = drain (line_number st) (warning_queue st)
      in st\<lparr> warning_queue := q', stdout := stdout st @ ds \<rparr>)"

text \<open>The body of the loop over the lines of the file in \<open>run_checks\<close>.\<close>

definition header_checks :: "analyzer \<Rightarrow> analyzer" where
  "header_checks st =
     (case match_object st of
        None \<Rightarrow> st
      | Some g \<Rightarrow> check_function_name g (check_class_name g (check_definition_spaces g st)))"

definition line_checks :: "analyzer \<Rightarrow> analyzer" where
  "line_checks st =
     header_checks (check_blank_lines (check_is_todo (check_comment_spaces
       (check_semicolon (check_indentation (check_line_length st))))))"

definition process_line :: "string \<Rightarrow> analyzer \<Rightarrow> analyzer" where
  "process_line line st =
     (let st1 = st\<lparr> string := line \<rparr>;
          st2 = st1\<lparr> match_object := get_groups st1 \<rparr>;
          st3 = st2\<lparr> hash_index := refresh_hash_index st2 \<rparr>;
          st4 = check_warning_queue (line_checks st3)
      in st4\<lparr> line_number := line_number st4 + 1 \<rparr>)"

fun line_loop :: "string list \<Rightarrow> analyzer \<Rightarrow> analyzer" where
  "line_loop [] st = st"
| "line_loop (line # rest) st = line_loop rest (process_line line st)"

section \<open>The syntax tree\<close>

text \<open>
  The nodes of Python's \<open>ast\<close> that the analyzer looks at, each with its \<open>lineno\<close>.
  \<open>ListLit\<close>, \<open>DictLit\<close> and \<open>SetLit\<close> are \<open>ast.List\<close>, \<open>ast.Dict\<close> and \<open>ast.Set\<close>;
  \<open>OtherExpr\<close> is any other node below an expression, with its child nodes.
  \<open>kw_defaults\<close> holds \<open>None\<close> for a keyword-only parameter without default.
\<close>

datatype expr =
    Name string int
  | Tuple "expr list" int
  | ListLit "expr list" int
  | DictLit "expr list" int
  | SetLit "expr list" int
  | Lambda arguments expr int
  | OtherExpr "expr list" int
and arguments =
    Arguments (posonlyargs: "arg list") (args: "arg list") (vararg: "arg option")
      (kwonlyargs: "arg list") (kw_defaults: "expr option list") (kwarg: "arg option")
      (defaults: "expr list")
and arg = Arg string int "expr option"

text \<open>
  A statement is a routine definition (name, parameters, body, line), an assignment with
  its targets, an annotated assignment with its one target, or any other statement with
  the statements nested in it, in the order of its fields, which is the order of the
  text (the body of a class, the branches of a conditional, the blocks of a \<open>try\<close>).
\<close>

datatype stmt =
    FunctionDef string arguments "stmt list" int
  | Assign "expr list" int
  | AnnAssign expr int
  | OtherStmt "stmt list"

datatype error = AttributeError | TypeError | IndexError | OSError | OtherException

text \<open>A call either raises, leaving the analyzer as it was at that moment (with what
  it had printed), or returns.\<close>

type_synonym 'a result = "(error \<times> analyzer) + 'a"

subsection \<open>\<open>ast.walk\<close>\<close>

datatype node = NArguments arguments | NArg arg | NExpr expr

fun somes :: "'a option list \<Rightarrow> 'a list" where
  "somes [] = []"
| "somes (None # xs) = somes xs"
| "somes (Some x # xs) = x # somes xs"

definition opt_list :: "'a option \<Rightarrow> 'a list" where
  "opt_list x = (case x of None \<Rightarrow> [] | Some y \<Rightarrow> [y])"

text \<open>\<open>ast.iter_child_nodes\<close>: the child nodes, field by field.\<close>

fun child_nodes :: "node \<Rightarrow> node list" where
  "child_nodes (NArguments a) =
     map NArg (posonlyargs a) @ map NArg (args a) @ map NArg (opt_list (vararg a))
     @ map NArg (kwonlyargs a) @ map NExpr (somes (kw_defaults a))
     @ map NArg (opt_list (kwarg a)) @ map NExpr (defaults a)"
| "child_nodes (NArg (Arg name lineno annotation)) = map NExpr (opt_list annotation)"
| "child_nodes (NExpr (Name ident lineno)) = []"
| "child_nodes (NExpr (Tuple elts lineno)) = map NExpr elts"
| "child_nodes (NExpr (ListLit elts lineno)) = map NExpr elts"
| "child_nodes (NExpr (DictLit elts lineno)) = map NExpr elts"
| "child_nodes (NExpr (SetLit elts lineno)) = map NExpr elts"
| "child_nodes (NExpr (Lambda a body lineno)) = [NArguments a, NExpr body]"
| "child_nodes (NExpr (OtherExpr children lineno)) = map NExpr children"

fun node_size :: "node \<Rightarrow> nat" where
  "node_size (NArguments a) = size a"
| "node_size (NArg a) = size a"
| "node_size (NExpr e) = size e"

text \<open>The queue of \<open>ast.walk\<close> takes a node from the front and puts its children at the
  back; a node weighs more than its children together, which is why the walk ends.\<close>

definition node_weight :: "node \<Rightarrow> nat" where
  "node_weight n = 2 * node_size n + 1"

lemma somes_weight:
  "(\<Sum>x\<leftarrow>somes xs. 2 * size x + 1) \<le> 2 * size_list (size_option size) xs"
  by (induction xs rule: somes.induct) auto

lemma list_weight: "(\<Sum>x\<leftarrow>xs. 2 * size x + 1) \<le> 2 * size_list size xs"
  by (induction xs) auto

lemma opt_weight: "(\<Sum>x\<leftarrow>opt_list y. 2 * size x + 1) \<le> 2 * size_option size y"
  by (cases y) (auto simp: opt_list_def)

lemma child_nodes_weight: "sum_list (map node_weight (child_nodes n)) < node_weight n"
proof (induction n rule: child_nodes.induct)
  case (1 a)
  then show ?case
    using list_weight[of "posonlyargs a"] list_weight[of "args a"]
      list_weight[of "kwonlyargs a"] list_weight[of "defaults a"]
      somes_weight[of "kw_defaults a"] opt_weight[of "vararg a"] opt_weight[of "kwarg a"]
    by (cases a) (simp add: node_weight_def comp_def)
next
  case (2 name lineno annotation)
  then show ?case using opt_weight[of annotation] by (simp add: node_weight_def comp_def)
next
  case (4 elts lineno)
  then show ?case using list_weight[of elts] by (simp add: node_weight_def comp_def)
next
  case (5 elts lineno)
  then show ?case using list_weight[of elts] by (simp add: node_weight_def comp_def)
next
  case (6 elts lineno)
  then show ?case using list_weight[of elts] by (simp add: node_weight_def comp_def)
next
  case (7 elts lineno)
  then show ?case using list_weight[of elts] by (simp add: node_weight_def comp_def)
next
  case (9 children lineno)
  then show ?case using list_weight[of children] by (simp add: node_weight_def comp_def)
qed (simp_all add: node_weight_def)

function walk :: "node list \<Rightarrow> node list" where
  "walk [] = []"
| "walk (n # todo) = n # walk (todo @ child_nodes n)"
  by pat_completeness auto
termination
  by (relation "measure (\<lambda>todo. sum_list (map node_weight todo))")
     (use child_nodes_weight in auto)

section \<open>The tree pass\<close>

definition enqueue :: "int \<Rightarrow> diag \<Rightarrow> analyzer \<Rightarrow> analyzer" where
  "enqueue key d st = st\<lparr> warning_queue := warning_queue st @ [(key, d)] \<rparr>"

text \<open>The loop of \<open>check_argument_name\<close> over the walked nodes: the first \<open>ast.arg\<close>
  whose name is not snake case is queued, and the loop breaks.\<close>

fun argument_loop :: "node list \<Rightarrow> analyzer \<Rightarrow> analyzer" where
  "argument_loop [] st = st"
| "argument_loop (NArg (Arg name lineno annotation) # items) st =
     (if \<not> is_snake_case name
      then enqueue lineno (Diag (path st) lineno S010 name) st
      else argument_loop items st)"
| "argument_loop (item # items) st = argument_loop items st"

definition check_argument_name :: "arguments \<Rightarrow> analyzer \<Rightarrow> analyzer" where
  "check_argument_name node_args st = argument_loop (walk [NArguments node_args]) st"

text \<open>The loop over the elements of a tuple target, \<open>item_lineno\<close> being the line of the
  tuple. Reading \<open>.id\<close> of an element that is not a \<open>Name\<close> raises.\<close>

fun tuple_loop :: "int \<Rightarrow> expr list \<Rightarrow> analyzer \<Rightarrow> analyzer result" where
  "tuple_loop item_lineno [] st = Inr st"
| "tuple_loop item_lineno (Name ident lineno # elts) st =
     (if \<not> is_snake_case ident
      then Inr (enqueue item_lineno (Diag (path st) lineno S011T ident) st)
      else tuple_loop item_lineno elts st)"
| "tuple_loop item_lineno (tuple_item # elts) st = Inl (AttributeError, st)"

fun targets_loop :: "expr list \<Rightarrow> analyzer \<Rightarrow> analyzer result" where
  "targets_loop [] st = Inr st"
| "targets_loop (Name ident lineno # items) st =
     (if \<not> is_snake_case ident
      then Inr (enqueue lineno (Diag (path st) lineno S011 ident) st)
      else targets_loop items st)"
| "targets_loop (Tuple elts lineno # items) st =
     (case tuple_loop lineno elts st of
        Inl e \<Rightarrow> Inl e
      | Inr st' \<Rightarrow> targets_loop items st')"
| "targets_loop (item # items) st = targets_loop items st"

text \<open>The loop over the statements of the body. \<open>ast.AnnAssign\<close> has a field \<open>target\<close>
  and none called \<open>targets\<close>, so reading \<open>list_item.targets\<close> of one raises.\<close>

fun check_local_variable_name :: "stmt list \<Rightarrow> analyzer \<Rightarrow> analyzer result" where
  "check_local_variable_name [] st = Inr st"
| "check_local_variable_name (Assign targets lineno # body) st =
     (case targets_loop targets st of
        Inl e \<Rightarrow> Inl e
      | Inr st' \<Rightarrow> check_local_variable_name body st')"
| "check_local_variable_name (AnnAssign target lineno # body) st = Inl (AttributeError, st)"
| "check_local_variable_name (list_item # body) st = check_local_variable_name body st"

definition expr_lineno :: "expr \<Rightarrow> int" where
  "expr_lineno e =
     (case e of Name _ l \<Rightarrow> l | Tuple _ l \<Rightarrow> l | ListLit _ l \<Rightarrow> l | DictLit _ l \<Rightarrow> l
      | SetLit _ l \<Rightarrow> l | Lambda _ _ l \<Rightarrow> l | OtherExpr _ l \<Rightarrow> l)"

datatype mutable_type = ast_List | ast_Dict | ast_Set

definition isinstance :: "expr option \<Rightarrow> mutable_type \<Rightarrow> bool" where
  "isinstance d t =
     (case d of
        Some (ListLit _ _) \<Rightarrow> t = ast_List
      | Some (DictLit _ _) \<Rightarrow> t = ast_Dict
      | Some (SetLit _ _) \<Rightarrow> t = ast_Set
      | _ \<Rightarrow> False)"

text \<open>The two nested loops of \<open>is_default_argument_mutable\<close>: \<open>Some\<close> is the state at
  the \<open>return\<close> inside them, \<open>None\<close> says that the inner loop ran to its end.
  \<open>isinstance\<close> holds of a node only, so \<open>defaults.lineno\<close> is read of a node.\<close>

fun mutable_type_loop :: "expr option \<Rightarrow> mutable_type list \<Rightarrow> analyzer \<Rightarrow> analyzer option" where
  "mutable_type_loop d [] st = None"
| "mutable_type_loop d (t # ts) st =
     (if isinstance d t
      then Some (enqueue (expr_lineno (the d)) (Diag (path st) (expr_lineno (the d)) S012 []) st)
      else mutable_type_loop d ts st)"

fun defaults_loop :: "expr option list \<Rightarrow> analyzer \<Rightarrow> analyzer" where
  "defaults_loop [] st = st"
| "defaults_loop (d # arguments_list) st =
     (case mutable_type_loop d [ast_List, ast_Dict, ast_Set] st of
        Some st' \<Rightarrow> st'
      | None \<Rightarrow> defaults_loop arguments_list st)"

definition is_default_argument_mutable :: "arguments \<Rightarrow> analyzer \<Rightarrow> analyzer" where
  "is_default_argument_mutable node_args st =
     (let arguments_list = [];
          arguments_list = (if kw_defaults node_args \<noteq> []
                            then arguments_list @ kw_defaults node_args else arguments_list);
          arguments_list = (if defaults node_args \<noteq> []
                            then arguments_list @ map Some (defaults node_args)
                            else arguments_list)
      in defaults_loop arguments_list st)"

text \<open>\<open>visit_FunctionDef\<close>, given the \<open>args\<close> and the \<open>body\<close> of the node. It does not go
  on into the body. Python's \<open>sorted\<close> is stable, as \<open>sort_key\<close> is.\<close>

definition visit_FunctionDef :: "arguments \<Rightarrow> stmt list \<Rightarrow> analyzer \<Rightarrow> analyzer result" where
  "visit_FunctionDef node_args body st =
     (case check_local_variable_name body (check_argument_name node_args st) of
        Inl e \<Rightarrow> Inl e
      | Inr st' \<Rightarrow>
          (let st'' = is_default_argument_mutable node_args st'
           in Inr (st''\<lparr> warning_queue := sort_key fst (warning_queue st'') \<rparr>)))"

text \<open>\<open>NodeVisitor.visit\<close> calls \<open>visit_FunctionDef\<close> on a routine definition and
  \<open>generic_visit\<close>, which visits the children in turn, on any other node.\<close>

fun visit :: "stmt \<Rightarrow> analyzer \<Rightarrow> analyzer result"
  and generic_visit :: "stmt list \<Rightarrow> analyzer \<Rightarrow> analyzer result" where
  "visit (FunctionDef name node_args body lineno) st = visit_FunctionDef node_args body st"
| "visit (Assign targets lineno) st = Inr st"
| "visit (AnnAssign target lineno) st = Inr st"
| "visit (OtherStmt children) st = generic_visit children st"
| "generic_visit [] st = Inr st"
| "generic_visit (child # children) st =
     (case visit child st of
        Inl e \<Rightarrow> Inl e
      | Inr st' \<Rightarrow> generic_visit children st')"

section \<open>The resilient parse\<close>

text \<open>
  \<open>ast.parse\<close> is Python's own parser. It is a parameter \<open>parse\<close> of the model: on a
  text it returns the statements of the module, or raises \<open>IndentationError\<close> or another
  \<open>SyntaxError\<close> with its \<open>lineno\<close>, or raises something else.
\<close>

datatype parse_result =
    Parsed "stmt list"
  | IndentationError int
  | SyntaxError int
  | ParseFailure

type_synonym parser = "string \<Rightarrow> parse_result"

text \<open>Indexing a list: a negative index counts from the end; \<open>None\<close> is
  \<open>IndexError\<close>.\<close>

definition py_index :: "'a list \<Rightarrow> int \<Rightarrow> nat option" where
  "py_index xs i =
     (let n = int (length xs); j = (if i < 0 then i + n else i)
      in if 0 \<le> j \<and> j < n then Some (nat j) else None)"

definition create_working_source :: "analyzer \<Rightarrow> analyzer" where
  "create_working_source st = st\<lparr> file_list_of_lines := splitlines (file_text st) \<rparr>"

definition fix_indentation_error :: "int \<Rightarrow> analyzer \<Rightarrow> analyzer result" where
  "fix_indentation_error error_lineno st =
     (let st1 = create_working_source st;
          error_location = error_lineno - 1
      in case py_index (file_list_of_lines st1) error_location of
           None \<Rightarrow> Inl (IndexError, st1)
         | Some i \<Rightarrow>
             (let st2 = st1\<lparr> file_list_of_lines :=
                               (file_list_of_lines st1)[i := lstrip (file_list_of_lines st1 ! i)] \<rparr>
              in Inr (st2\<lparr> file_text := concat (file_list_of_lines st2) \<rparr>)))"

text \<open>With no index from \<open>find_extra_semicolon\<close>, \<open>semicolon_index + 1\<close> adds 1 to
  \<open>None\<close>, which raises \<open>TypeError\<close>.\<close>

definition fix_syntax_error :: "int \<Rightarrow> analyzer \<Rightarrow> analyzer result" where
  "fix_syntax_error error_lineno st =
     (let st1 = create_working_source st;
          error_location = error_lineno - 1
      in case py_index (file_list_of_lines st1) error_location of
           None \<Rightarrow> Inl (IndexError, st1)
         | Some i \<Rightarrow>
             (case find_extra_semicolon (file_list_of_lines st1 ! i) of
                None \<Rightarrow> Inl (TypeError, st1)
              | Some semicolon_index \<Rightarrow>
                  (let line = file_list_of_lines st1 ! i;
                       st2 = st1\<lparr> file_list_of_lines :=
                                    (file_list_of_lines st1)
                                      [i := py_slice_to line semicolon_index
                                            @ py_slice_from line (semicolon_index + 1)] \<rparr>
                   in Inr (st2\<lparr> file_text := concat (file_list_of_lines st2) \<rparr>))))"

text \<open>The \<open>while True\<close> of \<open>built_ast\<close>. It has no bound: \<open>None\<close> is the loop that
  never ends. An exception raised inside a handler leaves the loop.\<close>

partial_function (option) parse_loop :: "parser \<Rightarrow> analyzer \<Rightarrow> ((stmt list \<times> analyzer) result) option" where
  "parse_loop parse st =
     (case parse (file_text st) of
        Parsed tree \<Rightarrow> Some (Inr (tree, st))
      | IndentationError l \<Rightarrow>
          (case fix_indentation_error l st of
             Inl e \<Rightarrow> Some (Inl e)
           | Inr st' \<Rightarrow> parse_loop parse st')
      | SyntaxError l \<Rightarrow>
          (case fix_syntax_error l st of
             Inl e \<Rightarrow> Some (Inl e)
           | Inr st' \<Rightarrow> parse_loop parse st')
      | ParseFailure \<Rightarrow> Some (Inl (OtherException, st)))"

text \<open>The files: \<open>read_file\<close> gives the text of the file at a path, as reading it in text
  mode does (\<open>None\<close> when it cannot be opened); \<open>scandir\<close> gives the entries of a
  directory, each with the answer of \<open>is_file\<close>.\<close>

record files =
  read_file :: "string \<Rightarrow> string option"
  scandir :: "string \<Rightarrow> (string \<times> bool) list option"

definition built_ast :: "parser \<Rightarrow> files \<Rightarrow> analyzer \<Rightarrow> ((stmt list \<times> analyzer) result) option" where
  "built_ast parse fs st =
     (case read_file fs (path st) of
        None \<Rightarrow> Some (Inl (OSError, st))
      | Some text \<Rightarrow> parse_loop parse (st\<lparr> file_text := text \<rparr>))"

section \<open>One file, and a directory\<close>

definition run_checks :: "parser \<Rightarrow> files \<Rightarrow> analyzer \<Rightarrow> (analyzer result) option" where
  "run_checks parse fs st =
     (case built_ast parse fs st of
        None \<Rightarrow> None
      | Some (Inl e) \<Rightarrow> Some (Inl e)
      | Some (Inr (tree, st1)) \<Rightarrow>
          (case generic_visit tree st1 of
             Inl e \<Rightarrow> Some (Inl e)
           | Inr st2 \<Rightarrow>
               (case read_file fs (path st2) of
                  None \<Rightarrow> Some (Inl (OSError, st2))
                | Some text \<Rightarrow> Some (Inr (line_loop (file_lines text) st2)))))"

fun run_files :: "parser \<Rightarrow> files \<Rightarrow> string list \<Rightarrow> analyzer \<Rightarrow> (analyzer result) option" where
  "run_files parse fs [] st = Some (Inr st)"
| "run_files parse fs (file_name # entries_list) st =
     (case run_checks parse fs
             (st\<lparr> path := directory_path st @ ''/'' @ file_name, line_number := 1 \<rparr>) of
        None \<Rightarrow> None
      | Some (Inl e) \<Rightarrow> Some (Inl e)
      | Some (Inr st') \<Rightarrow> run_files parse fs entries_list st')"

definition check_path :: "parser \<Rightarrow> files \<Rightarrow> analyzer \<Rightarrow> (analyzer result) option" where
  "check_path parse fs st =
     (if endswith (path st) ''.py'' then run_checks parse fs st
      else
        (let st1 = st\<lparr> directory_path := path st \<rparr>
         in case scandir fs (path st1) of
              None \<Rightarrow> Some (Inl (OSError, st1))
            | Some entries \<Rightarrow>
                run_files parse fs (sort (map fst (filter snd entries))) st1))"

declare parse_loop.simps [code]

section \<open>What a run shows\<close>

text \<open>What a step printed: the output after it, without the output before it.\<close>

definition emitted :: "analyzer \<Rightarrow> analyzer \<Rightarrow> diag list" where
  "emitted st st' = drop (length (stdout st)) (stdout st')"

text \<open>What a run has printed when it ends, by returning or by raising, and the exception
  it ends with, if any.\<close>

definition printed :: "(analyzer result) option \<Rightarrow> diag list option" where
  "printed r =
     (case r of
        None \<Rightarrow> None
      | Some (Inl (e, st)) \<Rightarrow> Some (stdout st)
      | Some (Inr st) \<Rightarrow> Some (stdout st))"

definition raised :: "(analyzer result) option \<Rightarrow> error option" where
  "raised r = (case r of Some (Inl (e, st)) \<Rightarrow> Some e | _ \<Rightarrow> None)"

text \<open>A file system holding one file.\<close>

definition one_file :: "string \<Rightarrow> string \<Rightarrow> files" where
  "one_file name text =
     \<lparr> read_file = (\<lambda>p. if p = name then Some text else None), scandir = (\<lambda>p. None) \<rparr>"

definition no_args :: arguments where
  "no_args = Arguments [] [] None [] [] None []"

section \<open>What processing a line prints\<close>

text \<open>A step that only prints, and only findings of the rules \<open>R\<close> for the current
  line.\<close>

definition prints_only :: "rule set \<Rightarrow> analyzer \<Rightarrow> analyzer \<Rightarrow> bool" where
  "prints_only R st st' =
     (\<exists>ds. st' = st\<lparr>stdout := stdout st @ ds\<rparr> \<and> d_rule ` set ds \<subseteq> R
           \<and> d_line ` set ds \<subseteq> {line_number st})"

lemma prints_only_refl: "prints_only R st st"
  unfolding prints_only_def by (rule exI[of _ "[]"]) simp

lemma prints_only_print: "r \<in> R \<Longrightarrow> prints_only R st (print r name st)"
  unfolding prints_only_def print_def
  by (rule exI[of _ "[Diag (path st) (line_number st) r name]"]) simp

lemma prints_only_trans:
  assumes "prints_only R a b" "prints_only R b c"
  shows "prints_only R a c"
proof -
  from assms(1)[unfolded prints_only_def] obtain ds
    where b: "b = a\<lparr>stdout := stdout a @ ds\<rparr>" and dr: "d_rule ` set ds \<subseteq> R"
      and dl: "d_line ` set ds \<subseteq> {line_number a}"
    by (elim exE conjE) (rule that)
  from assms(2)[unfolded prints_only_def] obtain es
    where c: "c = b\<lparr>stdout := stdout b @ es\<rparr>" and er: "d_rule ` set es \<subseteq> R"
      and el: "d_line ` set es \<subseteq> {line_number b}"
    by (elim exE conjE) (rule that)
  have lb: "line_number b = line_number a"
    by (subst b) simp
  have 1: "c = a\<lparr>stdout := stdout a @ (ds @ es)\<rparr>"
    by (subst c, subst b, subst b) simp
  have 2: "d_rule ` set (ds @ es) \<subseteq> R"
    using dr er by (simp add: image_Un)
  have 3: "d_line ` set (ds @ es) \<subseteq> {line_number a}"
    using dl el lb by (simp add: image_Un)
  show ?thesis
    unfolding prints_only_def
    by (rule exI[of _ "ds @ es"]) (simp only: 1 2 3 simp_thms)
qed

text \<open>The rules of the line pass other than the blank-line rule.\<close>

definition line_rules :: "rule set" where
  "line_rules = {S001, S002, S003, S004, S005, S007, S008, S009}"

lemma check_line_length_prints: "prints_only line_rules st (check_line_length st)"
  by (simp add: check_line_length_def prints_only_refl prints_only_print line_rules_def)
lemma check_indentation_prints: "prints_only line_rules st (check_indentation st)"
  by (simp add: check_indentation_def prints_only_refl prints_only_print line_rules_def Let_def)
lemma check_semicolon_prints: "prints_only line_rules st (check_semicolon st)"
  by (simp add: check_semicolon_def prints_only_refl prints_only_print line_rules_def)
lemma check_comment_spaces_prints: "prints_only line_rules st (check_comment_spaces st)"
  by (simp add: check_comment_spaces_def prints_only_refl prints_only_print line_rules_def)
lemma check_is_todo_prints: "prints_only line_rules st (check_is_todo st)"
  by (simp add: check_is_todo_def prints_only_refl prints_only_print line_rules_def Let_def)
lemma check_definition_spaces_prints: "prints_only line_rules st (check_definition_spaces g st)"
  by (simp add: check_definition_spaces_def prints_only_refl prints_only_print line_rules_def)
lemma check_class_names_prints: "prints_only line_rules st (check_class_names ns st)"
proof (induction ns arbitrary: st)
  case Nil
  show ?case by (simp add: prints_only_refl)
next
  case (Cons n ns)
  have "prints_only line_rules st (if \<not> is_camel_case n then print S008 n st else st)"
    by (simp add: prints_only_refl prints_only_print line_rules_def)
  with Cons show ?case
    by (auto simp: prints_only_refl intro: prints_only_trans simp del: not_not)
qed
lemma check_class_name_prints: "prints_only line_rules st (check_class_name g st)"
  by (simp add: check_class_name_def prints_only_refl check_class_names_prints
      del: check_class_names.simps)
lemma check_function_name_prints: "prints_only line_rules st (check_function_name g st)"
  by (simp add: check_function_name_def prints_only_refl prints_only_print line_rules_def)
lemma header_checks_prints: "prints_only line_rules st (header_checks st)"
proof (cases "match_object st")
  case None
  then show ?thesis by (simp add: header_checks_def prints_only_refl)
next
  case (Some g)
  have "prints_only line_rules st
          (check_function_name g (check_class_name g (check_definition_spaces g st)))"
    by (rule prints_only_trans[OF prints_only_trans[OF check_definition_spaces_prints
          check_class_name_prints] check_function_name_prints])
  with Some show ?thesis by (simp add: header_checks_def)
qed

text \<open>The checks of a line that run before \<open>check_blank_lines\<close>.\<close>

definition before_blank :: "analyzer \<Rightarrow> analyzer" where
  "before_blank st = check_is_todo (check_comment_spaces (check_semicolon (check_indentation (check_line_length st))))"

lemma before_blank_prints: "prints_only line_rules st (before_blank st)"
  unfolding before_blank_def
  by (rule prints_only_trans[OF prints_only_trans[OF prints_only_trans[OF prints_only_trans[OF
        check_line_length_prints check_indentation_prints] check_semicolon_prints]
        check_comment_spaces_prints] check_is_todo_prints])
lemma line_checks_before_blank: "line_checks st = header_checks (check_blank_lines (before_blank st))"
  by (simp add: line_checks_def before_blank_def)

lemma drain_fst: "set (fst (drain n q)) \<subseteq> snd ` set q"
  by (induction n q rule: drain.induct) (auto simp: Let_def split: prod.splits if_splits)
lemma drain_snd: "set (snd (drain n q)) \<subseteq> set q"
  by (induction n q rule: drain.induct) (auto simp: Let_def split: prod.splits if_splits)



text \<open>What processing a line does to the analyzer, \<open>ds\<close> and \<open>es\<close> being what the checks
  before and after the blank-line check print.\<close>

definition line_shape :: "analyzer \<Rightarrow> string \<Rightarrow> diag list \<Rightarrow> diag list \<Rightarrow> bool" where
  "line_shape st line ds es =
     (d_rule ` set ds \<subseteq> line_rules \<and> d_rule ` set es \<subseteq> line_rules
      \<and> d_line ` set ds \<subseteq> {line_number st} \<and> d_line ` set es \<subseteq> {line_number st}
      \<and> line_number (process_line line st) = line_number st + 1
      \<and> stdout (process_line line st) = stdout st @ emitted st (process_line line st)
      \<and> emitted st (process_line line st)
          = ds @ (if \<not> is_blank line \<and> blank_lines_counter st = 3
                  then [Diag (path st) (line_number st) S006 []] else [])
            @ es @ fst (drain (line_number st) (warning_queue st))
      \<and> blank_lines_counter (process_line line st)
          = (if is_blank line then blank_lines_counter st + 1 else 0)
      \<and> warning_queue (process_line line st) = snd (drain (line_number st) (warning_queue st)))"

lemma process_line_shape: "\<exists>ds es. line_shape st line ds es"
proof -
  define st3 where "st3 = st\<lparr>string := line, match_object := get_groups (st\<lparr>string := line\<rparr>),
      hash_index := refresh_hash_index
        (st\<lparr>string := line, match_object := get_groups (st\<lparr>string := line\<rparr>)\<rparr>)\<rparr>"
  define a where "a = before_blank st3"
  define b where "b = check_blank_lines a"
  define c where "c = header_checks b"
  define d where "d = check_warning_queue c"
  have pl: "process_line line st = d\<lparr>line_number := line_number d + 1\<rparr>"
    by (simp add: process_line_def Let_def d_def c_def b_def a_def st3_def
        line_checks_before_blank)
  obtain ds where a: "a = st3\<lparr>stdout := stdout st3 @ ds\<rparr>"
    and ds: "d_rule ` set ds \<subseteq> line_rules" and dl: "d_line ` set ds \<subseteq> {line_number st3}"
    using before_blank_prints[of st3] unfolding a_def prints_only_def by blast
  have fa: "warning_queue a = warning_queue st" "line_number a = line_number st"
    "path a = path st" "string a = line" "blank_lines_counter a = blank_lines_counter st"
    "stdout a = stdout st @ ds"
    using a by (simp_all add: st3_def)
  have fb: "warning_queue b = warning_queue st" "line_number b = line_number st"
    "blank_lines_counter b = (if is_blank line then blank_lines_counter st + 1 else 0)"
    "stdout b = stdout st @ ds @ (if \<not> is_blank line \<and> blank_lines_counter st = 3
        then [Diag (path st) (line_number st) S006 []] else [])"
    by (simp_all add: b_def check_blank_lines_def Let_def print_def fa)
  obtain es where c: "c = b\<lparr>stdout := stdout b @ es\<rparr>"
    and es: "d_rule ` set es \<subseteq> line_rules" and el: "d_line ` set es \<subseteq> {line_number b}"
    using header_checks_prints[of b] unfolding c_def prints_only_def by blast
  have fc: "warning_queue c = warning_queue st" "line_number c = line_number st"
    "blank_lines_counter c = (if is_blank line then blank_lines_counter st + 1 else 0)"
    "stdout c = stdout st @ ds @ (if \<not> is_blank line \<and> blank_lines_counter st = 3
        then [Diag (path st) (line_number st) S006 []] else []) @ es"
    using c by (simp_all add: fb)
  have fd: "stdout d = stdout c @ fst (drain (line_number st) (warning_queue st))"
    "warning_queue d = snd (drain (line_number st) (warning_queue st))"
    "blank_lines_counter d = blank_lines_counter c"
    by (simp_all add: d_def check_warning_queue_def fc split: prod.splits)
  have out: "emitted st (process_line line st)
      = ds @ (if \<not> is_blank line \<and> blank_lines_counter st = 3
              then [Diag (path st) (line_number st) S006 []] else [])
        @ es @ fst (drain (line_number st) (warning_queue st))"
    unfolding emitted_def pl by (simp add: fd fc)
  have cnt: "blank_lines_counter (process_line line st)
      = (if is_blank line then blank_lines_counter st + 1 else 0)"
    unfolding pl by (simp add: fd fc)
  have wq: "warning_queue (process_line line st)
      = snd (drain (line_number st) (warning_queue st))"
    unfolding pl by (simp add: fd)
  have ln: "line_number (process_line line st) = line_number st + 1"
    unfolding pl by (simp add: d_def check_warning_queue_def fc split: prod.splits)
  have dls: "d_line ` set ds \<subseteq> {line_number st}"
    using dl by (simp add: st3_def)
  have els: "d_line ` set es \<subseteq> {line_number st}"
    using el by (simp add: fb)
  show ?thesis
    unfolding line_shape_def
  proof (intro exI conjI)
    show "d_rule ` set ds \<subseteq> line_rules" by (rule ds)
    show "d_rule ` set es \<subseteq> line_rules" by (rule es)
    show "d_line ` set ds \<subseteq> {line_number st}" by (rule dls)
    show "d_line ` set es \<subseteq> {line_number st}" by (rule els)
    show "line_number (process_line line st) = line_number st + 1" by (rule ln)
    show "stdout (process_line line st) = stdout st @ emitted st (process_line line st)"
      unfolding emitted_def pl by (simp add: fd fc)
    show "emitted st (process_line line st)
      = ds @ (if \<not> is_blank line \<and> blank_lines_counter st = 3
              then [Diag (path st) (line_number st) S006 []] else [])
        @ es @ fst (drain (line_number st) (warning_queue st))" by (rule out)
    show "blank_lines_counter (process_line line st)
      = (if is_blank line then blank_lines_counter st + 1 else 0)" by (rule cnt)
    show "warning_queue (process_line line st)
      = snd (drain (line_number st) (warning_queue st))" by (rule wq)
  qed
qed

lemma drain_fst_key: "d \<in> set (fst (drain n q)) \<Longrightarrow> (n, d) \<in> set q"
  by (induction n q rule: drain.induct) (auto simp: Let_def split: prod.splits if_splits)

lemma drain_snd_sorted: "sorted (map fst q) \<Longrightarrow> sorted (map fst (snd (drain n q)))"
  by (induction n q rule: drain.induct) (auto simp: Let_def split: prod.splits if_splits)

lemma drain_snd_above:
  assumes "sorted (map fst q)" and "\<forall>e \<in> set q. n \<le> fst e"
  shows "\<forall>e \<in> set (snd (drain n q)). n + 1 \<le> fst e"
  using assms
proof (induction n q rule: drain.induct)
  case (1 n)
  show ?case by simp
next
  case (2 n k d q)
  show ?case
  proof (cases "k = n")
    case True
    with 2 show ?thesis by (auto simp: Let_def split: prod.splits)
  next
    case False
    with 2 have "n < k" by auto
    moreover from 2(2) have "\<forall>e \<in> set q. k \<le> fst e" by auto
    ultimately show ?thesis using False by auto
  qed
qed

lemma process_line_stdout: "\<exists>xs. stdout (process_line l st) = stdout st @ xs"
proof -
  from process_line_shape[of st l] obtain ds es where "line_shape st l ds es"
    by blast
  then have "stdout (process_line l st) = stdout st @ emitted st (process_line l st)"
    unfolding line_shape_def by (elim conjE)
  then show ?thesis by (rule exI)
qed

lemma line_loop_stdout: "\<exists>xs. stdout (line_loop lines st) = stdout st @ xs"
proof (induction lines arbitrary: st)
  case Nil
  show ?case by simp
next
  case (Cons l ls)
  from process_line_stdout[of l st] obtain xs
    where xs: "stdout (process_line l st) = stdout st @ xs" by (elim exE)
  from Cons[of "process_line l st"] obtain ys
    where ys: "stdout (line_loop ls (process_line l st)) = stdout (process_line l st) @ ys"
    by (elim exE)
  have "stdout (line_loop (l # ls) st) = stdout st @ (xs @ ys)"
    by (simp add: ys xs)
  then show ?case by (rule exI)
qed

lemma emitted_line_loop_Cons:
  "emitted st (line_loop (l # ls) st)
     = emitted st (process_line l st) @ emitted (process_line l st) (line_loop ls (process_line l st))"
proof -
  from process_line_stdout[of l st] obtain xs
    where xs: "stdout (process_line l st) = stdout st @ xs" by (elim exE)
  from line_loop_stdout[of ls "process_line l st"] obtain ys
    where ys: "stdout (line_loop ls (process_line l st)) = stdout (process_line l st) @ ys"
    by (elim exE)
  show ?thesis
    by (simp add: emitted_def ys xs)
qed

section \<open>The stray-semicolon rule\<close>







lemma py_find_beyond: "length s < a \<Longrightarrow> py_find s c (int a) = - 1"
  by (simp add: py_find_def Let_def)



























section \<open>The too-long-line rule\<close>

text \<open>
  Claim C5. The claim lets a line of 79 characters before its terminator pass. The code
  counts the terminator: a line of 79 characters and its newline has length 80 and gets
  S001, for any character \<open>c\<close>, and so does the file \<open>a.py\<close> that holds the one line of 79
  letters \<open>x\<close>.
\<close>

theorem line_of_79_is_too_long:
  "emitted st (check_line_length (st\<lparr>string := replicate 79 c @ [LF]\<rparr>))
     = [Diag (path st) (line_number st) S001 []]
   \<and> printed (run_checks (\<lambda>text. Parsed [OtherStmt []])
        (one_file ''a.py'' (replicate 79 CHR ''x'' @ [LF])) (init\<lparr>path := ''a.py''\<rparr>))
     = Some [Diag ''a.py'' 1 S001 []]"
proof
  show "emitted st (check_line_length (st\<lparr>string := replicate 79 c @ [LF]\<rparr>))
     = [Diag (path st) (line_number st) S001 []]"
    by (simp add: emitted_def check_line_length_def print_def)
  show "printed (run_checks (\<lambda>text. Parsed [OtherStmt []])
        (one_file ''a.py'' (replicate 79 CHR ''x'' @ [LF])) (init\<lparr>path := ''a.py''\<rparr>))
     = Some [Diag ''a.py'' 1 S001 []]"
    by code_simp
qed

section \<open>The local-variable check\<close>

text \<open>The file
  \<^verbatim>\<open>def f():\<close>,
  \<^verbatim>\<open>    X: int = 1\<close>
  and its tree; \<open>simple_tree\<close> is the tree of the same file with \<open>X = 1\<close> as its second
  line.\<close>

definition annotated_text :: string where
  "annotated_text = ''def f():'' @ [LF] @ ''    X: int = 1'' @ [LF]"

definition annotated_tree :: "stmt list" where
  "annotated_tree = [FunctionDef ''f'' no_args [AnnAssign (Name ''X'' 2) 2] 1]"

definition simple_text :: string where
  "simple_text = ''def f():'' @ [LF] @ ''    X = 1'' @ [LF]"

definition simple_tree :: "stmt list" where
  "simple_tree = [FunctionDef ''f'' no_args [Assign [Name ''X'' 2] 2] 1]"

text \<open>
  Claim C4. For an annotated assignment the claim promises the same finding as for a
  simple one. The code reads \<open>targets\<close> of every assignment, which an annotated
  assignment does not have: the check raises \<open>AttributeError\<close> at the first annotated
  assignment of a body, whatever its target. The file with \<open>X: int = 1\<close> ends in that
  exception with nothing printed; with \<open>X = 1\<close> it gets the one S011 finding at line 2.
\<close>

theorem annotated_assignment_raises:
  "check_local_variable_name (AnnAssign target lineno # body) st = Inl (AttributeError, st)
   \<and> raised (run_checks (\<lambda>text. Parsed annotated_tree) (one_file ''a.py'' annotated_text)
        (init\<lparr>path := ''a.py''\<rparr>)) = Some AttributeError
   \<and> printed (run_checks (\<lambda>text. Parsed annotated_tree) (one_file ''a.py'' annotated_text)
        (init\<lparr>path := ''a.py''\<rparr>)) = Some []
   \<and> printed (run_checks (\<lambda>text. Parsed simple_tree) (one_file ''a.py'' simple_text)
        (init\<lparr>path := ''a.py''\<rparr>)) = Some [Diag ''a.py'' 2 S011 ''X'']"
proof (intro conjI)
  show "check_local_variable_name (AnnAssign target lineno # body) st = Inl (AttributeError, st)"
    by simp
  show "raised (run_checks (\<lambda>text. Parsed annotated_tree) (one_file ''a.py'' annotated_text)
        (init\<lparr>path := ''a.py''\<rparr>)) = Some AttributeError"
    by code_simp
  show "printed (run_checks (\<lambda>text. Parsed annotated_tree) (one_file ''a.py'' annotated_text)
        (init\<lparr>path := ''a.py''\<rparr>)) = Some []"
    by code_simp
  show "printed (run_checks (\<lambda>text. Parsed simple_tree) (one_file ''a.py'' simple_text)
        (init\<lparr>path := ''a.py''\<rparr>)) = Some [Diag ''a.py'' 2 S011 ''X'']"
    by code_simp
qed

section \<open>Which routine definitions are visited\<close>

text \<open>The routine \<open>def inner(X): pass\<close> on line 2, once inside \<open>def outer():\<close> and once
  inside \<open>if True:\<close>.\<close>

definition inner_def :: stmt where
  "inner_def =
     FunctionDef ''inner'' (Arguments [] [Arg ''X'' 2 None] None [] [] None [])
       [OtherStmt []] 2"

definition nested_in_def_text :: string where
  "nested_in_def_text =
     ''def outer():'' @ [LF] @ ''    def inner(X):'' @ [LF] @ ''        pass'' @ [LF]"

definition nested_in_def_tree :: "stmt list" where
  "nested_in_def_tree = [FunctionDef ''outer'' no_args [inner_def] 1]"

definition nested_in_if_text :: string where
  "nested_in_if_text =
     ''if True:'' @ [LF] @ ''    def inner(X):'' @ [LF] @ ''        pass'' @ [LF]"

definition nested_in_if_tree :: "stmt list" where
  "nested_in_if_tree = [OtherStmt [inner_def]]"

definition is_FunctionDef :: "stmt \<Rightarrow> bool" where
  "is_FunctionDef s = (case s of FunctionDef _ _ _ _ \<Rightarrow> True | _ \<Rightarrow> False)"

lemma local_variables_skip_routines:
  "check_local_variable_name (filter (\<lambda>s. \<not> is_FunctionDef s) body) st
     = check_local_variable_name body st"
proof (induction body st rule: check_local_variable_name.induct)
  case (2 targets lineno body st)
  then show ?case
    by (cases "targets_loop targets st") (simp_all add: is_FunctionDef_def)
qed (simp_all add: is_FunctionDef_def)

text \<open>
  Claim C3. The claim has the routines nested inside other routines visited.
  \<open>visit_FunctionDef\<close> does not go on into the body of the routine it handles, so a
  routine defined inside a routine is never visited: visiting a routine gives the same
  result with the routine definitions taken out of its body. The badly named parameter
  \<open>X\<close> of \<open>inner\<close> is reported (S010, line 2) when \<open>inner\<close> sits inside a conditional, and
  not when it sits inside \<open>outer\<close>.
\<close>

theorem nested_routine_not_visited:
  "visit (FunctionDef name node_args body lineno) st
     = visit (FunctionDef name node_args (filter (\<lambda>s. \<not> is_FunctionDef s) body) lineno) st
   \<and> printed (run_checks (\<lambda>text. Parsed nested_in_def_tree) (one_file ''a.py'' nested_in_def_text)
        (init\<lparr>path := ''a.py''\<rparr>)) = Some []
   \<and> printed (run_checks (\<lambda>text. Parsed nested_in_if_tree) (one_file ''a.py'' nested_in_if_text)
        (init\<lparr>path := ''a.py''\<rparr>)) = Some [Diag ''a.py'' 2 S010 ''X'']"
proof (intro conjI)
  show "visit (FunctionDef name node_args body lineno) st
     = visit (FunctionDef name node_args (filter (\<lambda>s. \<not> is_FunctionDef s) body) lineno) st"
    by (simp add: visit_FunctionDef_def local_variables_skip_routines)
  show "printed (run_checks (\<lambda>text. Parsed nested_in_def_tree)
          (one_file ''a.py'' nested_in_def_text) (init\<lparr>path := ''a.py''\<rparr>)) = Some []"
    by code_simp
  show "printed (run_checks (\<lambda>text. Parsed nested_in_if_tree)
          (one_file ''a.py'' nested_in_if_text) (init\<lparr>path := ''a.py''\<rparr>))
        = Some [Diag ''a.py'' 2 S010 ''X'']"
    by code_simp
qed

section \<open>The order of the output\<close>

text \<open>The rules of the tree pass. The rank of a finding is twice its line, plus one for a
  finding of the tree pass: a list of findings sorted by rank is in ascending order of
  lines, with the findings of the line pass first among those of one line.\<close>

definition tree_rules :: "rule set" where
  "tree_rules = {S010, S011, S011T, S012}"

definition rank :: "diag \<Rightarrow> int" where
  "rank d = 2 * d_line d + (if d_rule d \<in> tree_rules then 1 else 0)"

text \<open>When every pending finding is queued under the line it prints, and the queue is
  sorted and not behind the current line, the line pass prints in order.\<close>

lemma sorted_const: "\<forall>x \<in> set xs. f x = c \<Longrightarrow> sorted (map f xs)"
  by (induction xs) auto

lemma ordered_output:
  assumes "sorted (map fst (warning_queue st))"
    and "\<forall>e \<in> set (warning_queue st).
           line_number st \<le> fst e \<and> d_line (snd e) = fst e \<and> d_rule (snd e) \<in> tree_rules"
  shows "sorted (map rank (emitted st (line_loop lines st)))
     \<and> (\<forall>d \<in> set (emitted st (line_loop lines st)). 2 * line_number st \<le> rank d)"
  using assms
proof (induction lines arbitrary: st)
  case Nil
  show ?case by (simp add: emitted_def)
next
  case (Cons l ls)
  define n where "n = line_number st"
  define q where "q = warning_queue st"
  define st' where "st' = process_line l st"
  from process_line_shape[of st l] obtain ds es where "line_shape st l ds es"
    by blast
  then have dr: "d_rule ` set ds \<subseteq> line_rules" and er: "d_rule ` set es \<subseteq> line_rules"
      and dl: "d_line ` set ds \<subseteq> {n}" and el: "d_line ` set es \<subseteq> {n}"
      and ln: "line_number st' = n + 1"
      and out: "emitted st st' = ds @ (if \<not> is_blank l \<and> blank_lines_counter st = 3
                 then [Diag (path st) n S006 []] else [])
           @ es @ fst (drain n q)"
      and wq: "warning_queue st' = snd (drain n q)"
    unfolding n_def q_def st'_def by (simp_all add: line_shape_def)
  have rank_ds: "\<forall>d \<in> set ds. rank d = 2 * n"
    using dr dl by (auto simp: rank_def line_rules_def tree_rules_def)
  have rank_es: "\<forall>d \<in> set es. rank d = 2 * n"
    using er el by (auto simp: rank_def line_rules_def tree_rules_def)
  have rank_dr: "\<forall>d \<in> set (fst (drain n q)). rank d = 2 * n + 1"
  proof
    fix d assume "d \<in> set (fst (drain n q))"
    then have "(n, d) \<in> set q" by (rule drain_fst_key)
    with Cons.prems(2) show "rank d = 2 * n + 1"
      by (auto simp: rank_def q_def)
  qed
  define mid where "mid = ds @ (if \<not> is_blank l \<and> blank_lines_counter st = 3
                 then [Diag (path st) n S006 []] else []) @ es"
  have rank_mid: "\<forall>d \<in> set mid. rank d = 2 * n"
    using rank_ds rank_es by (auto simp: mid_def rank_def tree_rules_def)
  have out': "emitted st st' = mid @ fst (drain n q)"
    by (simp add: out mid_def)
  have here: "\<forall>d \<in> set (emitted st st'). rank d = 2 * n \<or> rank d = 2 * n + 1"
    unfolding out' using rank_mid rank_dr by auto
  have first: "sorted (map rank (emitted st st'))"
    unfolding out' using sorted_const[OF rank_mid] sorted_const[OF rank_dr] rank_mid rank_dr
    by (auto simp: sorted_append)
  have q1: "sorted (map fst (warning_queue st'))"
    unfolding wq using Cons.prems(1) by (simp add: drain_snd_sorted q_def)
  have above: "\<forall>e \<in> set (snd (drain n q)). n + 1 \<le> fst e"
    using drain_snd_above[of q n] Cons.prems by (simp add: q_def n_def)
  have q2: "\<forall>e \<in> set (warning_queue st').
           line_number st' \<le> fst e \<and> d_line (snd e) = fst e \<and> d_rule (snd e) \<in> tree_rules"
    unfolding wq ln using above drain_snd[of n q] Cons.prems(2) by (auto simp: q_def)
  from Cons.IH[OF q1 q2]
  have rest: "sorted (map rank (emitted st' (line_loop ls st')))"
    and rest_above: "\<forall>d \<in> set (emitted st' (line_loop ls st')). 2 * (n + 1) \<le> rank d"
    by (simp_all add: ln)
  have split: "emitted st (line_loop (l # ls) st) = emitted st st' @ emitted st' (line_loop ls st')"
    unfolding st'_def by (rule emitted_line_loop_Cons)
  have "sorted (map rank (emitted st (line_loop (l # ls) st)))"
    unfolding split using first rest here rest_above
    by (fastforce simp: sorted_append)
  moreover have "\<forall>d \<in> set (emitted st (line_loop (l # ls) st)). 2 * line_number st \<le> rank d"
    unfolding split using here rest_above by (fastforce simp: n_def)
  ultimately show ?case by simp
qed

text \<open>The file
  \<^verbatim>\<open>def f():\<close>,
  \<^verbatim>\<open>    (a,\<close>,
  \<^verbatim>\<open>     b,\<close>,
  \<^verbatim>\<open>     C) = 1, 2, 3\<close>
  whose tuple target starts on line 2 and has its element \<open>C\<close> on line 4.\<close>

definition tuple_text :: string where
  "tuple_text =
     ''def f():'' @ [LF] @ ''    (a,'' @ [LF] @ ''     b,'' @ [LF]
     @ ''     C) = 1, 2, 3'' @ [LF]"

definition tuple_tree :: "stmt list" where
  "tuple_tree =
     [FunctionDef ''f'' no_args
        [Assign [Tuple [Name ''a'' 2, Name ''b'' 3, Name ''C'' 4] 2] 2] 1]"

text \<open>
  Claim C6. By \<open>ordered_output\<close> the order the claim states holds as long as every finding
  is queued under the line it prints. The finding for an element of a tuple target is
  not: it is queued under the line of the tuple and printed with the line of the
  element. On the file above the S011 message for line 4 comes out while line 2 is
  processed: before the S002 message of line 3, and before the S002 message of line 4
  itself, against both halves of the claim.
\<close>

theorem tuple_finding_out_of_order:
  "printed (run_checks (\<lambda>text. Parsed tuple_tree) (one_file ''a.py'' tuple_text)
        (init\<lparr>path := ''a.py''\<rparr>))
     = Some [Diag ''a.py'' 4 S011T ''C'', Diag ''a.py'' 3 S002 [], Diag ''a.py'' 4 S002 []]"
  by code_simp

section \<open>A directory\<close>

text \<open>The directory \<open>d\<close> with \<open>a.py\<close>, which is \<open>x = 1\<close> and three blank lines, and
  \<open>b.py\<close>, which is the one line \<open>y = 2\<close>. Either file parses to one assignment.\<close>

definition two_files :: files where
  "two_files =
     \<lparr> read_file = (\<lambda>p. if p = ''d/a.py'' then Some (''x = 1'' @ [LF, LF, LF, LF])
                         else if p = ''d/b.py'' then Some (''y = 2'' @ [LF]) else None),
       scandir = (\<lambda>p. if p = ''d'' then Some [(''b.py'', True), (''a.py'', True)] else None) \<rparr>"

definition parse_assignment :: parser where
  "parse_assignment text =
     (if text = ''x = 1'' @ [LF, LF, LF, LF] then Parsed [Assign [Name ''x'' 1] 1]
      else if text = ''y = 2'' @ [LF] then Parsed [Assign [Name ''y'' 1] 1]
      else ParseFailure)"

text \<open>The analyzer a run returns, if it returns.\<close>

definition returned :: "(analyzer result) option \<Rightarrow> analyzer option" where
  "returned r = (case r of Some (Inr st) \<Rightarrow> Some st | _ \<Rightarrow> None)"

text \<open>
  Claim C1. Between the files of a directory \<open>check_path\<close> sets the line number back to 1
  and nothing else. The three blank lines that end \<open>a.py\<close> leave the blank-line counter
  at 3, \<open>b.py\<close> starts with it, and its first line gets S006, which the same file analysed
  alone does not get.
\<close>

theorem blank_counter_leaks_between_files:
  "map_option blank_lines_counter
       (returned (run_checks parse_assignment two_files (init\<lparr>path := ''d/a.py''\<rparr>))) = Some 3
   \<and> printed (check_path parse_assignment two_files (init\<lparr>path := ''d''\<rparr>))
       = Some [Diag ''d/b.py'' 1 S006 []]
   \<and> printed (check_path parse_assignment two_files (init\<lparr>path := ''d/b.py''\<rparr>)) = Some []"
proof (intro conjI)
  show "map_option blank_lines_counter
       (returned (run_checks parse_assignment two_files (init\<lparr>path := ''d/a.py''\<rparr>))) = Some 3"
    by code_simp
  show "printed (check_path parse_assignment two_files (init\<lparr>path := ''d''\<rparr>))
       = Some [Diag ''d/b.py'' 1 S006 []]"
    by code_simp
  show "printed (check_path parse_assignment two_files (init\<lparr>path := ''d/b.py''\<rparr>)) = Some []"
    by code_simp
qed

section \<open>The mutable-default check\<close>

text \<open>A literal list, mapping or set construction.\<close>

definition is_mutable_literal :: "expr option \<Rightarrow> bool" where
  "is_mutable_literal d =
     (case d of
        Some (ListLit _ _) \<Rightarrow> True
      | Some (DictLit _ _) \<Rightarrow> True
      | Some (SetLit _ _) \<Rightarrow> True
      | _ \<Rightarrow> False)"

lemma mutable_type_loop_all:
  "mutable_type_loop d [ast_List, ast_Dict, ast_Set] st =
     (if is_mutable_literal d
      then Some (enqueue (expr_lineno (the d)) (Diag (path st) (expr_lineno (the d)) S012 []) st)
      else None)"
  by (simp add: is_mutable_literal_def isinstance_def split: option.splits expr.splits)

lemma defaults_loop_find:
  "defaults_loop ds st =
     (case find is_mutable_literal ds of
        Some (Some e) \<Rightarrow> enqueue (expr_lineno e) (Diag (path st) (expr_lineno e) S012 []) st
      | _ \<Rightarrow> st)"
proof (induction ds)
  case Nil
  show ?case by simp
next
  case (Cons d ds)
  show ?case
  proof (cases "is_mutable_literal d")
    case True
    then obtain e where "d = Some e"
      by (cases d) (auto simp: is_mutable_literal_def)
    with True show ?thesis
      by (simp add: mutable_type_loop_all del: mutable_type_loop.simps)
  next
    case False
    with Cons show ?thesis
      by (simp add: mutable_type_loop_all del: mutable_type_loop.simps)
  qed
qed

text \<open>
  Claim C7. The mutable-default check looks through the keyword defaults and then the
  positional defaults; at the first one that is a literal list, mapping or set
  construction it queues one S012 finding, at the line of that literal, and stops; with
  no such default it leaves the analyzer as it was. For \<open>def f(x=[])\<close> the queue gets
  exactly one finding, for \<open>def f(x=1)\<close> none.
\<close>

theorem mutable_default_first_only:
  "is_default_argument_mutable a st =
     (case find is_mutable_literal (kw_defaults a @ map Some (defaults a)) of
        Some (Some e) \<Rightarrow> enqueue (expr_lineno e) (Diag (path st) (expr_lineno e) S012 []) st
      | _ \<Rightarrow> st)
   \<and> warning_queue (is_default_argument_mutable
         (Arguments [] [Arg ''x'' 1 None] None [] [] None [ListLit [] 1]) st)
       = warning_queue st @ [(1, Diag (path st) 1 S012 [])]
   \<and> is_default_argument_mutable
         (Arguments [] [Arg ''x'' 1 None] None [] [] None [OtherExpr [] 1]) st = st"
  by (simp add: is_default_argument_mutable_def defaults_loop_find is_mutable_literal_def
      enqueue_def expr_lineno_def)

section \<open>The blank-line rule\<close>

lemma process_line_S006:
  assumes q: "S006 \<notin> d_rule ` snd ` set (warning_queue st)"
  shows "(S006 \<in> d_rule ` set (emitted st (process_line line st)))
           = (\<not> is_blank line \<and> blank_lines_counter st = 3)"
proof -
  from process_line_shape[of st line] obtain ds es where "line_shape st line ds es"
    by blast
  then have ds: "d_rule ` set ds \<subseteq> line_rules" and es: "d_rule ` set es \<subseteq> line_rules"
    and out: "emitted st (process_line line st)
         = ds @ (if \<not> is_blank line \<and> blank_lines_counter st = 3
                 then [Diag (path st) (line_number st) S006 []] else [])
           @ es @ fst (drain (line_number st) (warning_queue st))"
    by (simp_all add: line_shape_def)
  have "S006 \<notin> d_rule ` set ds" "S006 \<notin> d_rule ` set es"
    using ds es by (auto simp: line_rules_def)
  moreover have "S006 \<notin> d_rule ` set (fst (drain (line_number st) (warning_queue st)))"
    using q drain_fst[of "line_number st" "warning_queue st"] by auto
  ultimately show ?thesis
    unfolding out by auto
qed

lemma blank_run:
  assumes "list_all is_blank blanks"
  shows "blank_lines_counter (line_loop blanks st) = blank_lines_counter st + int (length blanks)
     \<and> set (warning_queue (line_loop blanks st)) \<subseteq> set (warning_queue st)"
  using assms
proof (induction blanks arbitrary: st)
  case Nil
  show ?case by simp
next
  case (Cons l ls)
  from Cons.prems have l: "is_blank l" and ls: "list_all is_blank ls" by simp_all
  from process_line_shape[of st l] obtain ds es where "line_shape st l ds es"
    by blast
  then have c: "blank_lines_counter (process_line l st) = blank_lines_counter st + 1"
    and w: "set (warning_queue (process_line l st)) \<subseteq> set (warning_queue st)"
    using l drain_snd[of "line_number st" "warning_queue st"]
    by (simp_all add: line_shape_def)
  from Cons.IH[OF ls, of "process_line l st"] c w show ?case
    by auto
qed

text \<open>
  Claim C10. When a run of four or more blank lines is followed by a line that is not
  blank, processing that line prints no S006 finding: the counter, which never is
  negative, is above 3 by then. On a line that is not blank S006 is printed exactly when
  the counter is 3. (The pending queue holds findings of the tree pass, none of them
  S006.)
\<close>

theorem no_finding_after_four_blank_lines:
  assumes "0 \<le> blank_lines_counter st"
    and "S006 \<notin> d_rule ` snd ` set (warning_queue st)"
    and "list_all is_blank blanks" and "4 \<le> length blanks" and "\<not> is_blank line"
  shows "S006 \<notin> d_rule ` set (emitted (line_loop blanks st) (process_line line (line_loop blanks st)))
     \<and> (S006 \<in> d_rule ` set (emitted st (process_line line st))) = (blank_lines_counter st = 3)"
proof -
  from blank_run[OF assms(3), of st]
  have c: "blank_lines_counter (line_loop blanks st) = blank_lines_counter st + int (length blanks)"
    and w: "set (warning_queue (line_loop blanks st)) \<subseteq> set (warning_queue st)"
    by simp_all
  from w assms(2) have q: "S006 \<notin> d_rule ` snd ` set (warning_queue (line_loop blanks st))"
    by auto
  from c assms(1,4) have "blank_lines_counter (line_loop blanks st) \<noteq> 3"
    by simp
  with process_line_S006[OF q, of line] process_line_S006[OF assms(2), of line] assms(5)
  show ?thesis by simp
qed

theorem no_finding_after_four_blank_lines_witness:
  "0 \<le> blank_lines_counter init
   \<and> S006 \<notin> d_rule ` snd ` set (warning_queue init)
   \<and> list_all is_blank [[LF], [LF], [LF], [LF]] \<and> 4 \<le> length [[LF], [LF], [LF], [LF]]
   \<and> \<not> is_blank ''x = 1''
   \<and> S006 \<notin> d_rule ` set (emitted (line_loop [[LF], [LF], [LF], [LF]] init)
        (process_line ''x = 1'' (line_loop [[LF], [LF], [LF], [LF]] init)))
   \<and> (S006 \<in> d_rule ` set (emitted init (process_line ''x = 1'' init))) = (blank_lines_counter init = 3)"
  using no_finding_after_four_blank_lines[of init "[[LF], [LF], [LF], [LF]]" "''x = 1''"]
  by (simp add: init_def is_blank_def startswith_def LF_def CR_def)

section \<open>A syntax error that cannot be repaired\<close>

text \<open>\<open>repaired parse st st'\<close>: the loop, started at \<open>st\<close>, is at \<open>st'\<close> after some number of
  repairs that went through.\<close>

inductive repaired :: "parser \<Rightarrow> analyzer \<Rightarrow> analyzer \<Rightarrow> bool" for parse :: parser where
  no_repair: "repaired parse st st"
| indentation_repair:
    "repaired parse st st' \<Longrightarrow> parse (file_text st') = IndentationError l
     \<Longrightarrow> fix_indentation_error l st' = Inr st'' \<Longrightarrow> repaired parse st st''"
| semicolon_repair:
    "repaired parse st st' \<Longrightarrow> parse (file_text st') = SyntaxError l
     \<Longrightarrow> fix_syntax_error l st' = Inr st'' \<Longrightarrow> repaired parse st st''"

lemma repaired_parse_loop: "repaired parse st st' \<Longrightarrow> parse_loop parse st = parse_loop parse st'"
proof (induction rule: repaired.induct)
  case (no_repair st)
  show ?case by simp
next
  case (indentation_repair st st' l st'')
  have "parse_loop parse st' = parse_loop parse st''"
    using indentation_repair.hyps by (subst parse_loop.simps) simp
  with indentation_repair.IH show ?case by simp
next
  case (semicolon_repair st st' l st'')
  have "parse_loop parse st' = parse_loop parse st''"
    using semicolon_repair.hyps by (subst parse_loop.simps) simp
  with semicolon_repair.IH show ?case by simp
qed

lemma fix_indentation_error_source:
  "fix_indentation_error l st = Inr st' \<Longrightarrow> \<exists>fl ft. st' = st\<lparr>file_list_of_lines := fl, file_text := ft\<rparr>"
  by (auto simp: fix_indentation_error_def create_working_source_def Let_def split: option.splits)

lemma fix_syntax_error_source:
  "fix_syntax_error l st = Inr st' \<Longrightarrow> \<exists>fl ft. st' = st\<lparr>file_list_of_lines := fl, file_text := ft\<rparr>"
  by (auto simp: fix_syntax_error_def create_working_source_def Let_def split: option.splits)

lemma repaired_source:
  "repaired parse st st' \<Longrightarrow> \<exists>fl ft. st' = st\<lparr>file_list_of_lines := fl, file_text := ft\<rparr>"
proof (induction rule: repaired.induct)
  case (no_repair st)
  have "st = st\<lparr>file_list_of_lines := file_list_of_lines st, file_text := file_text st\<rparr>" by simp
  then show ?case by blast
next
  case (indentation_repair st st' l st'')
  then obtain fl ft where "st' = st\<lparr>file_list_of_lines := fl, file_text := ft\<rparr>" by blast
  moreover from fix_indentation_error_source[OF indentation_repair.hyps(3)]
  obtain fl' ft' where "st'' = st'\<lparr>file_list_of_lines := fl', file_text := ft'\<rparr>" by blast
  ultimately have "st'' = st\<lparr>file_list_of_lines := fl', file_text := ft'\<rparr>" by simp
  then show ?case by blast
next
  case (semicolon_repair st st' l st'')
  then obtain fl ft where "st' = st\<lparr>file_list_of_lines := fl, file_text := ft\<rparr>" by blast
  moreover from fix_syntax_error_source[OF semicolon_repair.hyps(3)]
  obtain fl' ft' where "st'' = st'\<lparr>file_list_of_lines := fl', file_text := ft'\<rparr>" by blast
  ultimately have "st'' = st\<lparr>file_list_of_lines := fl', file_text := ft'\<rparr>" by simp
  then show ?case by blast
qed

text \<open>
  Claim C9. When the parser reports a syntax error at a line of the working text in which
  \<open>find_extra_semicolon\<close> finds nothing, at the first round of the loop or after repairs
  that went through, \<open>fix_syntax_error\<close> raises \<open>TypeError\<close>; \<open>run_checks\<close> ends with that
  exception and has printed nothing for the file.
\<close>

theorem unrepairable_syntax_error_raises:
  assumes "read_file fs (path st) = Some text"
    and "repaired parse (st\<lparr>file_text := text\<rparr>) st'"
    and "parse (file_text st') = SyntaxError l"
    and "py_index (splitlines (file_text st')) (l - 1) = Some i"
    and "find_extra_semicolon (splitlines (file_text st') ! i) = None"
  shows "fix_syntax_error l st' = Inl (TypeError, create_working_source st')
    \<and> raised (run_checks parse fs st) = Some TypeError
    \<and> printed (run_checks parse fs st) = Some (stdout st)"
proof -
  have raises: "fix_syntax_error l st' = Inl (TypeError, create_working_source st')"
    using assms(4,5) by (simp add: fix_syntax_error_def create_working_source_def Let_def)
  have "parse_loop parse st' = Some (Inl (TypeError, create_working_source st'))"
    using assms(3) raises by (subst parse_loop.simps) simp
  with repaired_parse_loop[OF assms(2)]
  have loop: "parse_loop parse (st\<lparr>file_text := text\<rparr>) = Some (Inl (TypeError, create_working_source st'))"
    by simp
  have run: "run_checks parse fs st = Some (Inl (TypeError, create_working_source st'))"
    using assms(1) loop by (simp add: run_checks_def built_ast_def)
  from repaired_source[OF assms(2)] have "stdout st' = stdout st" by auto
  then have "stdout (create_working_source st') = stdout st"
    by (simp add: create_working_source_def)
  with run raises show ?thesis by (simp add: raised_def printed_def)
qed

text \<open>The one line \<open>x = = 1\<close>, which has no semicolon.\<close>

definition no_semicolon_text :: string where
  "no_semicolon_text = ''x = = 1'' @ [LF]"

theorem unrepairable_syntax_error_raises_witness:
  "read_file (one_file ''a.py'' no_semicolon_text) (path (init\<lparr>path := ''a.py''\<rparr>)) = Some no_semicolon_text
   \<and> repaired (\<lambda>t. SyntaxError 1) (init\<lparr>path := ''a.py'', file_text := no_semicolon_text\<rparr>) (init\<lparr>path := ''a.py'', file_text := no_semicolon_text\<rparr>)
   \<and> py_index (splitlines no_semicolon_text) (1 - 1) = Some 0
   \<and> find_extra_semicolon (splitlines no_semicolon_text ! 0) = None
   \<and> raised (run_checks (\<lambda>t. SyntaxError 1) (one_file ''a.py'' no_semicolon_text) (init\<lparr>path := ''a.py''\<rparr>)) = Some TypeError
   \<and> printed (run_checks (\<lambda>t. SyntaxError 1) (one_file ''a.py'' no_semicolon_text) (init\<lparr>path := ''a.py''\<rparr>)) = Some []"
proof -
  have h1: "read_file (one_file ''a.py'' no_semicolon_text) (path (init\<lparr>path := ''a.py''\<rparr>)) = Some no_semicolon_text"
    by (simp add: one_file_def)
  have h2: "repaired (\<lambda>t. SyntaxError 1) (init\<lparr>path := ''a.py''\<rparr>\<lparr>file_text := no_semicolon_text\<rparr>) (init\<lparr>path := ''a.py'', file_text := no_semicolon_text\<rparr>)"
    by (simp add: repaired.no_repair)
  have h3: "(\<lambda>t. SyntaxError 1) (file_text (init\<lparr>path := ''a.py'', file_text := no_semicolon_text\<rparr>)) = SyntaxError 1" by simp
  have h4: "py_index (splitlines (file_text (init\<lparr>path := ''a.py'', file_text := no_semicolon_text\<rparr>))) (1 - 1) = Some 0"
    by (simp add: no_semicolon_text_def splitlines_def py_index_def LF_def CR_def is_linebreak_def)
  have h5: "find_extra_semicolon (splitlines (file_text (init\<lparr>path := ''a.py'', file_text := no_semicolon_text\<rparr>)) ! 0) = None"
    by (simp add: no_semicolon_text_def splitlines_def LF_def CR_def is_linebreak_def find_extra_semicolon_def hash_chr_def semicolon_def)
  from unrepairable_syntax_error_raises[OF h1 h2 h3 h4 h5] h1 h2 h4 h5 show ?thesis
    by (simp add: init_def)
qed

section \<open>The text the line pass reads\<close>

text \<open>The analyzer with other working text, and a result with it.\<close>

definition with_source :: "string list \<Rightarrow> string \<Rightarrow> analyzer \<Rightarrow> analyzer" where
  "with_source fl ft st = st\<lparr>file_list_of_lines := fl, file_text := ft\<rparr>"

definition lift_source :: "string list \<Rightarrow> string \<Rightarrow> analyzer result \<Rightarrow> analyzer result" where
  "lift_source fl ft r =
     (case r of Inl (e, s) \<Rightarrow> Inl (e, with_source fl ft s) | Inr s \<Rightarrow> Inr (with_source fl ft s))"

lemma with_source_fields [simp]:
  "path (with_source fl ft st) = path st"
  "string (with_source fl ft st) = string st"
  "line_number (with_source fl ft st) = line_number st"
  "match_object (with_source fl ft st) = match_object st"
  "hash_index (with_source fl ft st) = hash_index st"
  "warning_queue (with_source fl ft st) = warning_queue st"
  "stdout (with_source fl ft st) = stdout st"
  by (simp_all add: with_source_def)

lemma lift_source_simps [simp]:
  "lift_source fl ft (Inl (e, s)) = Inl (e, with_source fl ft s)"
  "lift_source fl ft (Inr s) = Inr (with_source fl ft s)"
  by (simp_all add: lift_source_def)

text \<open>The tree pass does not look at the working text.\<close>

lemma enqueue_source: "enqueue k d (with_source fl ft st) = with_source fl ft (enqueue k d st)"
  by (simp add: enqueue_def with_source_def)

lemma argument_loop_source:
  "argument_loop items (with_source fl ft st) = with_source fl ft (argument_loop items st)"
  by (induction items st rule: argument_loop.induct) (simp_all add: enqueue_source)

lemma check_argument_name_source:
  "check_argument_name a (with_source fl ft st) = with_source fl ft (check_argument_name a st)"
  by (simp add: check_argument_name_def argument_loop_source)

lemma tuple_loop_source:
  "tuple_loop k elts (with_source fl ft st) = lift_source fl ft (tuple_loop k elts st)"
  by (induction k elts st rule: tuple_loop.induct) (simp_all add: enqueue_source)

lemma targets_loop_source:
  "targets_loop items (with_source fl ft st) = lift_source fl ft (targets_loop items st)"
  by (induction items st rule: targets_loop.induct)
     (auto simp: enqueue_source tuple_loop_source split: sum.splits)

lemma check_local_variable_name_source:
  "check_local_variable_name body (with_source fl ft st)
     = lift_source fl ft (check_local_variable_name body st)"
  by (induction body st rule: check_local_variable_name.induct)
     (auto simp: targets_loop_source split: sum.splits)

lemma mutable_type_loop_source:
  "mutable_type_loop d ts (with_source fl ft st) = map_option (with_source fl ft) (mutable_type_loop d ts st)"
  by (induction d ts st rule: mutable_type_loop.induct) (simp_all add: enqueue_source)

lemma defaults_loop_source:
  "defaults_loop ds (with_source fl ft st) = with_source fl ft (defaults_loop ds st)"
  by (induction ds st rule: defaults_loop.induct)
     (auto simp: mutable_type_loop_source simp del: mutable_type_loop.simps split: option.splits)

lemma is_default_argument_mutable_source:
  "is_default_argument_mutable a (with_source fl ft st)
     = with_source fl ft (is_default_argument_mutable a st)"
  by (simp add: is_default_argument_mutable_def defaults_loop_source Let_def)

lemma sort_queue_source:
  "(with_source fl ft st)\<lparr>warning_queue := q\<rparr> = with_source fl ft (st\<lparr>warning_queue := q\<rparr>)"
  by (simp add: with_source_def)

lemma visit_FunctionDef_source:
  "visit_FunctionDef a body (with_source fl ft st) = lift_source fl ft (visit_FunctionDef a body st)"
  by (auto simp: visit_FunctionDef_def check_argument_name_source check_local_variable_name_source
      is_default_argument_mutable_source sort_queue_source Let_def split: sum.splits)

lemma visit_source:
  "visit s (with_source fl ft st) = lift_source fl ft (visit s st)"
  "generic_visit ss (with_source fl ft st) = lift_source fl ft (generic_visit ss st)"
  by (induction s st and ss st rule: visit_generic_visit.induct)
     (auto simp: visit_FunctionDef_source split: sum.splits)

text \<open>Nor does the line pass.\<close>

lemma print_source: "print r name (with_source fl ft st) = with_source fl ft (print r name st)"
  by (simp add: print_def with_source_def)

lemma check_line_length_source:
  "check_line_length (with_source fl ft st) = with_source fl ft (check_line_length st)"
  by (simp add: check_line_length_def print_source)

lemma check_indentation_source:
  "check_indentation (with_source fl ft st) = with_source fl ft (check_indentation st)"
  by (simp add: check_indentation_def print_source Let_def)

lemma check_semicolon_source:
  "check_semicolon (with_source fl ft st) = with_source fl ft (check_semicolon st)"
  by (simp add: check_semicolon_def print_source)

lemma check_comment_spaces_source:
  "check_comment_spaces (with_source fl ft st) = with_source fl ft (check_comment_spaces st)"
  by (simp add: check_comment_spaces_def print_source)

lemma check_is_todo_source:
  "check_is_todo (with_source fl ft st) = with_source fl ft (check_is_todo st)"
  by (simp add: check_is_todo_def print_source Let_def)

lemma check_blank_lines_source:
  "check_blank_lines (with_source fl ft st) = with_source fl ft (check_blank_lines st)"
  by (simp add: check_blank_lines_def print_def with_source_def Let_def)

lemma check_definition_spaces_source:
  "check_definition_spaces g (with_source fl ft st) = with_source fl ft (check_definition_spaces g st)"
  by (simp add: check_definition_spaces_def print_source)

lemma check_class_names_source:
  "check_class_names ns (with_source fl ft st) = with_source fl ft (check_class_names ns st)"
  by (induction ns arbitrary: st) (auto simp: print_source)

lemma check_class_name_source:
  "check_class_name g (with_source fl ft st) = with_source fl ft (check_class_name g st)"
  by (simp add: check_class_name_def check_class_names_source del: check_class_names.simps)

lemma check_function_name_source:
  "check_function_name g (with_source fl ft st) = with_source fl ft (check_function_name g st)"
  by (simp add: check_function_name_def print_source)

lemma header_checks_source:
  "header_checks (with_source fl ft st) = with_source fl ft (header_checks st)"
  by (simp add: header_checks_def check_definition_spaces_source check_class_name_source
      check_function_name_source split: option.splits)

lemma line_checks_source:
  "line_checks (with_source fl ft st) = with_source fl ft (line_checks st)"
  by (simp add: line_checks_def check_line_length_source check_indentation_source
      check_semicolon_source check_comment_spaces_source check_is_todo_source
      check_blank_lines_source header_checks_source)

lemma check_warning_queue_source:
  "check_warning_queue (with_source fl ft st) = with_source fl ft (check_warning_queue st)"
  by (simp add: check_warning_queue_def with_source_def split: prod.splits)

lemma process_line_source:
  "process_line line (with_source fl ft st) = with_source fl ft (process_line line st)"
proof -
  have u: "\<And>s x. (with_source fl ft s)\<lparr>string := x\<rparr> = with_source fl ft (s\<lparr>string := x\<rparr>)"
    "\<And>s x. (with_source fl ft s)\<lparr>match_object := x\<rparr> = with_source fl ft (s\<lparr>match_object := x\<rparr>)"
    "\<And>s x. (with_source fl ft s)\<lparr>hash_index := x\<rparr> = with_source fl ft (s\<lparr>hash_index := x\<rparr>)"
    "\<And>s x. (with_source fl ft s)\<lparr>line_number := x\<rparr> = with_source fl ft (s\<lparr>line_number := x\<rparr>)"
    by (simp_all add: with_source_def)
  have g: "\<And>s. get_groups (with_source fl ft s) = get_groups s"
    "\<And>s. refresh_hash_index (with_source fl ft s) = refresh_hash_index s"
    by (simp_all add: get_groups_def refresh_hash_index_def)
  show ?thesis
    by (simp add: process_line_def Let_def u g line_checks_source check_warning_queue_source)
qed

lemma line_loop_source:
  "line_loop lines (with_source fl ft st) = with_source fl ft (line_loop lines st)"
  by (induction lines arbitrary: st) (simp_all add: process_line_source)

text \<open>The tree pass leaves the path alone.\<close>

definition path_after :: "analyzer result \<Rightarrow> string" where
  "path_after r = (case r of Inl (e, s) \<Rightarrow> path s | Inr s \<Rightarrow> path s)"

lemma path_after_simps [simp]:
  "path_after (Inl (e, s)) = path s" "path_after (Inr s) = path s"
  by (simp_all add: path_after_def)

lemma enqueue_path: "path (enqueue k d st) = path st"
  by (simp add: enqueue_def)

lemma argument_loop_path: "path (argument_loop items st) = path st"
  by (induction items st rule: argument_loop.induct) (simp_all add: enqueue_path)

lemma tuple_loop_path: "path_after (tuple_loop k elts st) = path st"
  by (induction k elts st rule: tuple_loop.induct) (simp_all add: enqueue_path)

lemma targets_loop_path: "path_after (targets_loop items st) = path st"
proof (induction items st rule: targets_loop.induct)
  case (3 elts lineno items st)
  show ?case
  proof (cases "tuple_loop lineno elts st")
    case (Inl e)
    with tuple_loop_path[of lineno elts st] show ?thesis by (cases e) simp
  next
    case (Inr st')
    with tuple_loop_path[of lineno elts st] 3[OF Inr] show ?thesis by simp
  qed
qed (simp_all add: enqueue_path)

lemma check_local_variable_name_path: "path_after (check_local_variable_name body st) = path st"
proof (induction body st rule: check_local_variable_name.induct)
  case (2 targets lineno body st)
  show ?case
  proof (cases "targets_loop targets st")
    case (Inl e)
    with targets_loop_path[of targets st] show ?thesis by (cases e) simp
  next
    case (Inr st')
    with targets_loop_path[of targets st] 2[OF Inr] show ?thesis by simp
  qed
qed simp_all

lemma defaults_loop_path: "path (defaults_loop ds st) = path st"
  by (simp add: defaults_loop_find enqueue_path split: option.splits)

lemma visit_FunctionDef_path: "path_after (visit_FunctionDef a body st) = path st"
proof (cases "check_local_variable_name body (check_argument_name a st)")
  case (Inl e)
  with check_local_variable_name_path[of body "check_argument_name a st"] show ?thesis
    by (cases e) (simp add: visit_FunctionDef_def check_argument_name_def argument_loop_path)
next
  case (Inr st')
  with check_local_variable_name_path[of body "check_argument_name a st"] show ?thesis
    by (simp add: visit_FunctionDef_def check_argument_name_def argument_loop_path Let_def
        is_default_argument_mutable_def defaults_loop_path)
qed

lemma visit_path:
  "path_after (visit s st) = path st"
  "path_after (generic_visit ss st) = path st"
proof (induction s st and ss st rule: visit_generic_visit.induct)
  case (1 name node_args body lineno st)
  show ?case by (simp add: visit_FunctionDef_path)
next
  case (6 child children st)
  show ?case
  proof (cases "visit child st")
    case (Inl e)
    with 6(1) show ?thesis by (cases e) simp
  next
    case (Inr st')
    with 6(1) 6(2)[OF Inr] show ?thesis by simp
  qed
qed simp_all

text \<open>Following the spec's words: \<open>run_checks\<close> as it would be if the line pass read the
  text as it stood after repair.\<close>

definition run_checks_over_repaired :: "parser \<Rightarrow> files \<Rightarrow> analyzer \<Rightarrow> (analyzer result) option" where
  "run_checks_over_repaired parse fs st =
     (case built_ast parse fs st of
        None \<Rightarrow> None
      | Some (Inl e) \<Rightarrow> Some (Inl e)
      | Some (Inr (tree, st1)) \<Rightarrow>
          (case generic_visit tree st1 of
             Inl e \<Rightarrow> Some (Inl e)
           | Inr st2 \<Rightarrow> Some (Inr (line_loop (file_lines (file_text st2)) st2))))"

text \<open>The file \<open>a.py\<close> with the lines \<open>x = 1\<close> and \<open>  y = 2\<close>: the parser reports an
  unexpected indent at line 2, and parses the text once that line has lost its indent.\<close>

definition indented_text :: string where
  "indented_text = ''x = 1'' @ [LF] @ ''  y = 2'' @ [LF]"

definition unindented_text :: string where
  "unindented_text = ''x = 1'' @ [LF] @ ''y = 2'' @ [LF]"

definition parse_indented :: parser where
  "parse_indented text =
     (if text = indented_text then IndentationError 2
      else if text = unindented_text
      then Parsed [Assign [Name ''x'' 1] 1, Assign [Name ''y'' 2] 2]
      else ParseFailure)"

text \<open>
  Claim C2, as stated, fails. The file above needs one repair; the working text after it
  is the unindented one; yet S002 is printed for line 2, which only the original line
  deserves. Over the repaired text the line pass would print nothing.
\<close>

theorem line_pass_not_over_repaired_text:
  "map_option file_text (returned (run_checks parse_indented (one_file ''a.py'' indented_text)
        (init\<lparr>path := ''a.py''\<rparr>))) = Some unindented_text
   \<and> printed (run_checks parse_indented (one_file ''a.py'' indented_text)
        (init\<lparr>path := ''a.py''\<rparr>)) = Some [Diag ''a.py'' 2 S002 []]
   \<and> printed (run_checks_over_repaired parse_indented (one_file ''a.py'' indented_text)
        (init\<lparr>path := ''a.py''\<rparr>)) = Some []"
proof (intro conjI)
  show "map_option file_text (returned (run_checks parse_indented (one_file ''a.py'' indented_text)
        (init\<lparr>path := ''a.py''\<rparr>))) = Some unindented_text"
    by code_simp
  show "printed (run_checks parse_indented (one_file ''a.py'' indented_text)
        (init\<lparr>path := ''a.py''\<rparr>)) = Some [Diag ''a.py'' 2 S002 []]"
    by code_simp
  show "printed (run_checks_over_repaired parse_indented (one_file ''a.py'' indented_text)
        (init\<lparr>path := ''a.py''\<rparr>)) = Some []"
    by code_simp
qed

text \<open>
  Claim C2, amended. After any number of repairs that lead to a tree, \<open>run_checks\<close> prints
  what the tree pass over that tree and then the line pass over the lines of the file as
  it is on disk print, started from the analyzer as it was before the parse: the repaired
  text is used to build the tree and for nothing else.
\<close>

theorem line_pass_reads_original_file:
  assumes "read_file fs (path st) = Some text"
    and "repaired parse (st\<lparr>file_text := text\<rparr>) st1"
    and "parse (file_text st1) = Parsed tree"
  shows "printed (run_checks parse fs st) =
           (case generic_visit tree st of
              Inl (e, s) \<Rightarrow> Some (stdout s)
            | Inr st2 \<Rightarrow> Some (stdout (line_loop (file_lines text) st2)))"
proof -
  from repaired_source[OF assms(2)] obtain fl ft where "st1 = with_source fl ft st"
    by (auto simp: with_source_def)
  then have st1: "st1 = with_source fl ft st" .
  have "parse_loop parse st1 = Some (Inr (tree, st1))"
    using assms(3) by (subst parse_loop.simps) simp
  with repaired_parse_loop[OF assms(2)]
  have built: "built_ast parse fs st = Some (Inr (tree, st1))"
    using assms(1) by (simp add: built_ast_def)
  have visited: "generic_visit tree st1 = lift_source fl ft (generic_visit tree st)"
    unfolding st1 by (rule visit_source)
  show ?thesis
  proof (cases "generic_visit tree st")
    case (Inl e)
    then show ?thesis
      using built visited by (cases e) (simp add: run_checks_def printed_def)
  next
    case (Inr st2)
    have "path st2 = path st"
      using visit_path(2)[of tree st] Inr by simp
    then show ?thesis
      using built visited Inr assms(1)
      by (simp add: run_checks_def printed_def line_loop_source)
  qed
qed

text \<open>The tree of the repaired text, and the analyzer after the repair.\<close>

definition unindented_tree :: "stmt list" where
  "unindented_tree = [Assign [Name ''x'' 1] 1, Assign [Name ''y'' 2] 2]"

definition after_repair :: analyzer where
  "after_repair = init\<lparr>path := ''a.py'', file_list_of_lines := [''x = 1'' @ [LF], ''y = 2'' @ [LF]],
       file_text := unindented_text\<rparr>"

theorem line_pass_reads_original_file_witness:
  "read_file (one_file ''a.py'' indented_text) (path (init\<lparr>path := ''a.py''\<rparr>)) = Some indented_text
   \<and> repaired parse_indented (init\<lparr>path := ''a.py'', file_text := indented_text\<rparr>) after_repair
   \<and> parse_indented (file_text after_repair) = Parsed unindented_tree
   \<and> printed (run_checks parse_indented (one_file ''a.py'' indented_text) (init\<lparr>path := ''a.py''\<rparr>))
       = Some (stdout (line_loop (file_lines indented_text) (init\<lparr>path := ''a.py''\<rparr>)))"
proof -
  have h1: "read_file (one_file ''a.py'' indented_text) (path (init\<lparr>path := ''a.py''\<rparr>)) = Some indented_text"
    by (simp add: one_file_def)
  have p0: "parse_indented (file_text (init\<lparr>path := ''a.py'', file_text := indented_text\<rparr>)) = IndentationError 2"
    by (simp add: parse_indented_def)
  have f0: "fix_indentation_error 2 (init\<lparr>path := ''a.py'', file_text := indented_text\<rparr>) = Inr after_repair"
    by code_simp
  have h2: "repaired parse_indented (init\<lparr>path := ''a.py''\<rparr>\<lparr>file_text := indented_text\<rparr>) after_repair"
    using indentation_repair[of parse_indented
        "init\<lparr>path := ''a.py'', file_text := indented_text\<rparr>"
        "init\<lparr>path := ''a.py'', file_text := indented_text\<rparr>" 2 after_repair,
        OF no_repair p0 f0]
    by simp
  have h3: "parse_indented (file_text after_repair) = Parsed unindented_tree"
    by code_simp
  have v: "generic_visit unindented_tree (init\<lparr>path := ''a.py''\<rparr>) = Inr (init\<lparr>path := ''a.py''\<rparr>)"
    by (simp add: unindented_tree_def)
  from line_pass_reads_original_file[OF h1 h2 h3] v h1 h2 h3 show ?thesis
    by simp
qed

end
